theory Spec2Isabelle
  imports Main
begin

unbundle bit_operations_syntax

section \<open>fylshr: a static file server with forced downloads\<close>

text \<open>
  The repository holds two variants of one Go program: \<^verbatim>\<open>src/main.go\<close> (plain HTTP)
  and \<^verbatim>\<open>src/unnamed/part_000\<close> (HTTP or HTTPS with a generated certificate).
  Their request handler, \<^verbatim>\<open>isMedia\<close>, \<^verbatim>\<open>getLocalAddr\<close> and \<^verbatim>\<open>style\<close> are the same
  text; only the request log line differs. Go strings are byte sequences and are
  modelled as \<^typ>\<open>string\<close> (a list of 8-bit characters).
\<close>

subsection \<open>Standard library functions the program calls\<close>

text \<open>
  \<^verbatim>\<open>path.Base\<close>: the empty path gives \<^verbatim>\<open>"."\<close>; trailing slashes are stripped; the
  text after the last slash is kept; a path of slashes only gives \<^verbatim>\<open>"/"\<close>.
\<close>

function stripTrailingSlashes :: "string \<Rightarrow> string" where
  "stripTrailingSlashes p =
     (if p \<noteq> [] \<and> last p = CHR ''/'' then stripTrailingSlashes (butlast p) else p)"
  by pat_completeness auto
termination
  by (relation "measure length") auto

declare stripTrailingSlashes.simps [simp del]

text \<open>
  \<^verbatim>\<open>lastSlash\<close>: the loop \<^verbatim>\<open>i := len(s)-1; for i >= 0 && s[i] != '/' { i-- }\<close>. The
  argument \<open>n\<close> of the loop function is \<open>i + 1\<close>; the result is the index, or \<open>-1\<close>.
\<close>

primrec lastSlash_loop :: "string \<Rightarrow> nat \<Rightarrow> int" where
  "lastSlash_loop s 0 = -1"
| "lastSlash_loop s (Suc i) = (if s ! i \<noteq> CHR ''/'' then lastSlash_loop s i else int i)"

definition lastSlash :: "string \<Rightarrow> int" where
  "lastSlash s = lastSlash_loop s (length s)"

definition Base :: "string \<Rightarrow> string" where
  "Base path =
     (if path = [] then ''.''
      else
        let p1 = stripTrailingSlashes path;
            i = lastSlash p1;
            p2 = (if i \<ge> 0 then drop (nat (i + 1)) p1 else p1)
        in if p2 = [] then ''/'' else p2)"

text \<open>
  \<^verbatim>\<open>filepath.Ext\<close>: scan from the end while the byte is not a path separator; at the
  first dot return the suffix starting there; otherwise the empty string. The
  separator test \<^verbatim>\<open>os.IsPathSeparator\<close> depends on the platform and is a parameter
  (\<open>unix_sep\<close> and \<open>windows_sep\<close> are its two instances).
\<close>

primrec Ext_loop :: "(char \<Rightarrow> bool) \<Rightarrow> string \<Rightarrow> nat \<Rightarrow> string" where
  "Ext_loop sep path 0 = []"
| "Ext_loop sep path (Suc i) =
     (if sep (path ! i) then []
      else if path ! i = CHR ''.'' then drop i path
      else Ext_loop sep path i)"

definition Ext :: "(char \<Rightarrow> bool) \<Rightarrow> string \<Rightarrow> string" where
  "Ext sep path = Ext_loop sep path (length path)"

definition unix_sep :: "char \<Rightarrow> bool" where
  "unix_sep c = (c = CHR ''/'')"

definition windows_sep :: "char \<Rightarrow> bool" where
  "windows_sep c = (c = CHR ''/'' \<or> c = CHR 0x5C)"

subsection \<open>The forced-download classification\<close>

text \<open>
  \<^verbatim>\<open>isMedia\<close> (part_000 lines 101-139, main.go lines 78-116). The lookup
  \<^verbatim>\<open>mime.TypeByExtension\<close> reads the platform's MIME tables and is the parameter
  \<open>tbe\<close>; it returns the empty string for an extension it does not know.
\<close>

definition mediaTypes :: "string list" where
  "mediaTypes =
     [''image/jpeg'',
      ''image/png'',
      ''image/gif'',
      ''video/mp4'',
      ''video/mpeg'',
      ''video/webm'',
      ''video/quicktime'',
      ''application/pdf'',
      ''application/msword'',
      ''application/vnd.openxmlformats-officedocument.wordprocessingml.document'',
      ''application/vnd.ms-powerpoint'',
      ''application/vnd.openxmlformats-officedocument.presentationml.presentation'',
      ''application/vnd.ms-excel'',
      ''application/vnd.openxmlformats-officedocument.spreadsheetml.sheet'',
      ''audio/mpeg'',
      ''audio/wav'',
      ''audio/ogg'',
      ''audio/midi'',
      ''application/ogg'',
      ''application/x-7z-compressed'',
      ''application/zip'',
      ''application/x-rar-compressed'',
      ''application/x-tar'',
      ''application/x-bzip2'',
      ''application/x-gzip'',
      ''application/x-zip-compressed'',
      ''application/x-tar-gz'',
      ''application/x-compressed-tar'']"

definition isMedia :: "(string \<Rightarrow> string) \<Rightarrow> (char \<Rightarrow> bool) \<Rightarrow> string \<Rightarrow> bool" where
  "isMedia tbe sep filename =
     (let extension = Ext sep filename;
          mimeType = tbe extension
      in mimeType \<in> set mediaTypes)"

text \<open>
  The extension in the words of the specification: the suffix of the name that
  begins at its final dot, empty when the name has no dot.
\<close>

definition final_dot_ext :: "string \<Rightarrow> string" where
  "final_dot_ext f =
     (if CHR ''.'' \<in> set f then CHR ''.'' # rev (takeWhile (\<lambda>c. c \<noteq> CHR ''.'') (rev f)) else [])"

text \<open>A small extension table for evaluating the definitions on concrete names.\<close>

definition sample_tbe :: "string \<Rightarrow> string" where
  "sample_tbe e =
     (if e = ''.pdf'' then ''application/pdf''
      else if e = ''.png'' then ''image/png''
      else if e = ''.txt'' then ''text/plain; charset=utf-8''
      else [])"

subsection \<open>Quoting of the file name\<close>

text \<open>
  \<^verbatim>\<open>strconv.Quote\<close> as the handler calls it: double quote as the delimiter,
  \<^verbatim>\<open>ASCIIonly\<close> and \<^verbatim>\<open>graphicOnly\<close> both false. Bytes and runes are read as natural
  numbers (\<open>of_char\<close>, \<open>char_of\<close>); \<^verbatim>\<open>byte(x)\<close> keeps the low eight bits. The
  printability tables of \<^verbatim>\<open>strconv.IsPrint\<close> for runes above \<^verbatim>\<open>0xFF\<close> are the
  parameter \<open>tab\<close>.
\<close>

definition RuneError :: nat where
  "RuneError = 0xFFFD"

definition RuneSelf :: nat where
  "RuneSelf = 0x80"

definition MaxRune :: nat where
  "MaxRune = 0x10FFFF"

definition byte :: "nat \<Rightarrow> nat" where
  "byte x = x mod 256"

text \<open>The table \<^verbatim>\<open>first\<close> of \<^verbatim>\<open>unicode/utf8\<close>, by byte ranges.\<close>

definition utf8_first :: "nat \<Rightarrow> nat" where
  "utf8_first b =
     (if b < 0x80 then 0xF0
      else if b < 0xC2 then 0xF1
      else if b < 0xE0 then 0x02
      else if b = 0xE0 then 0x13
      else if b < 0xED then 0x03
      else if b = 0xED then 0x23
      else if b < 0xF0 then 0x03
      else if b = 0xF0 then 0x34
      else if b < 0xF4 then 0x04
      else if b = 0xF4 then 0x44
      else 0xF1)"

definition acceptRanges :: "nat \<Rightarrow> nat \<times> nat" where
  "acceptRanges i =
     (if i = 0 then (0x80, 0xBF)
      else if i = 1 then (0xA0, 0xBF)
      else if i = 2 then (0x80, 0x9F)
      else if i = 3 then (0x90, 0xBF)
      else if i = 4 then (0x80, 0x8F)
      else (0, 0))"

text \<open>\<^verbatim>\<open>utf8.DecodeRuneInString\<close>: the rune and its width in bytes.\<close>

definition DecodeRuneInString :: "string \<Rightarrow> nat \<times> nat" where
  "DecodeRuneInString s =
     (let n = length s in
      if n < 1 then (RuneError, 0)
      else
        let s0 = of_char (s ! 0); x = utf8_first s0 in
        if x \<ge> 0xF0 then ((if x = 0xF1 then RuneError else s0), 1)
        else
          let sz = x AND 7; accept = acceptRanges (drop_bit 4 x) in
          if n < sz then (RuneError, 1)
          else
            let s1 = of_char (s ! 1) in
            if s1 < fst accept \<or> snd accept < s1 then (RuneError, 1)
            else if sz \<le> 2 then (push_bit 6 (s0 AND 0x1F) OR (s1 AND 0x3F), 2)
            else
              let s2 = of_char (s ! 2) in
              if s2 < 0x80 \<or> 0xBF < s2 then (RuneError, 1)
              else if sz \<le> 3
                then (push_bit 12 (s0 AND 0x0F) OR push_bit 6 (s1 AND 0x3F) OR (s2 AND 0x3F), 3)
              else
                let s3 = of_char (s ! 3) in
                if s3 < 0x80 \<or> 0xBF < s3 then (RuneError, 1)
                else (push_bit 18 (s0 AND 0x07) OR push_bit 12 (s1 AND 0x3F)
                        OR push_bit 6 (s2 AND 0x3F) OR (s3 AND 0x3F), 4))"

definition IsPrint :: "(nat \<Rightarrow> bool) \<Rightarrow> nat \<Rightarrow> bool" where
  "IsPrint tab r =
     (if r \<le> 0xFF then
        (if 0x20 \<le> r \<and> r \<le> 0x7E then True
         else if 0xA1 \<le> r \<and> r \<le> 0xFF then r \<noteq> 0xAD
         else False)
      else tab r)"

definition ValidRune :: "nat \<Rightarrow> bool" where
  "ValidRune r =
     (if r < 0xD800 then True else if 0xDFFF < r \<and> r \<le> MaxRune then True else False)"

text \<open>\<^verbatim>\<open>utf8.AppendRune\<close>: the UTF-8 bytes of a rune.\<close>

definition AppendRune :: "nat \<Rightarrow> string" where
  "AppendRune r =
     (if r \<le> 0x7F then [char_of (byte r)]
      else if r \<le> 0x7FF then
        [char_of (0xC0 OR byte (drop_bit 6 r)), char_of (0x80 OR (byte r AND 0x3F))]
      else if r > MaxRune \<or> (0xD800 \<le> r \<and> r \<le> 0xDFFF) then
        [char_of (0xE0 OR byte (drop_bit 12 RuneError)),
         char_of (0x80 OR (byte (drop_bit 6 RuneError) AND 0x3F)),
         char_of (0x80 OR (byte RuneError AND 0x3F))]
      else if r \<le> 0xFFFF then
        [char_of (0xE0 OR byte (drop_bit 12 r)),
         char_of (0x80 OR (byte (drop_bit 6 r) AND 0x3F)),
         char_of (0x80 OR (byte r AND 0x3F))]
      else
        [char_of (0xF0 OR byte (drop_bit 18 r)),
         char_of (0x80 OR (byte (drop_bit 12 r) AND 0x3F)),
         char_of (0x80 OR (byte (drop_bit 6 r) AND 0x3F)),
         char_of (0x80 OR (byte r AND 0x3F))])"

definition lowerhex :: string where
  "lowerhex = ''0123456789abcdef''"

text \<open>
  \<^verbatim>\<open>appendEscapedRune\<close>: the quote and the backslash are always backslashed; a
  printable rune is copied; the rest becomes \<^verbatim>\<open>\a \b \f \n \r \t \v\<close>, \<^verbatim>\<open>\xhh\<close>,
  \<^verbatim>\<open>\uhhhh\<close> or \<^verbatim>\<open>\Uhhhhhhhh\<close>.
\<close>

definition appendEscapedRune :: "(nat \<Rightarrow> bool) \<Rightarrow> nat \<Rightarrow> string" where
  "appendEscapedRune tab r =
     (if r = 0x22 \<or> r = 0x5C then [CHR 0x5C, char_of (byte r)]
      else if IsPrint tab r then AppendRune r
      else if r = 0x07 then [CHR 0x5C, CHR ''a'']
      else if r = 0x08 then [CHR 0x5C, CHR ''b'']
      else if r = 0x0C then [CHR 0x5C, CHR ''f'']
      else if r = 0x0A then [CHR 0x5C, CHR ''n'']
      else if r = 0x0D then [CHR 0x5C, CHR ''r'']
      else if r = 0x09 then [CHR 0x5C, CHR ''t'']
      else if r = 0x0B then [CHR 0x5C, CHR ''v'']
      else if r < 0x20 \<or> r = 0x7F then
        [CHR 0x5C, CHR ''x'', lowerhex ! (drop_bit 4 (byte r)), lowerhex ! (byte r AND 0xF)]
      else if \<not> ValidRune r \<or> r < 0x10000 then
        (let r' = (if \<not> ValidRune r then 0xFFFD else r)
         in [CHR 0x5C, CHR ''u''] @ map (\<lambda>s. lowerhex ! (drop_bit s r' AND 0xF)) [12, 8, 4, 0])
      else
        [CHR 0x5C, CHR ''U'']
          @ map (\<lambda>s. lowerhex ! (drop_bit s r AND 0xF)) [28, 24, 20, 16, 12, 8, 4, 0])"

text \<open>
  The head of the loop of \<^verbatim>\<open>appendQuotedWith\<close>:
  \<^verbatim>\<open>r := rune(s[0]); width = 1; if r >= utf8.RuneSelf { r, width = DecodeRuneInString(s) }\<close>.
\<close>

definition nextRune :: "string \<Rightarrow> nat \<times> nat" where
  "nextRune s =
     (let r = of_char (s ! 0)
      in if r \<ge> RuneSelf then DecodeRuneInString s else (r, 1))"

lemma DecodeRuneInString_width: "s \<noteq> [] \<Longrightarrow> 0 < snd (DecodeRuneInString s)"
  unfolding DecodeRuneInString_def Let_def
  by (simp only: if_distrib [of snd] snd_conv split: if_split) simp

lemma nextRune_width: "s \<noteq> [] \<Longrightarrow> 0 < snd (nextRune s)"
  by (simp add: nextRune_def Let_def DecodeRuneInString_width)

text \<open>
  The loop \<^verbatim>\<open>for width := 0; len(s) > 0; s = s[width:]\<close>: a byte that is no valid
  UTF-8 becomes \<^verbatim>\<open>\xhh\<close>, every other rune goes through \<^verbatim>\<open>appendEscapedRune\<close>.
\<close>

function quote_loop :: "(nat \<Rightarrow> bool) \<Rightarrow> string \<Rightarrow> string" where
  "quote_loop tab s =
     (if s = [] then []
      else
        let rw = nextRune s; r = fst rw; width = snd rw in
        (if width = 1 \<and> r = RuneError then
           [CHR 0x5C, CHR ''x'',
            lowerhex ! (drop_bit 4 (of_char (s ! 0) :: nat)),
            lowerhex ! ((of_char (s ! 0) :: nat) AND 0xF)]
         else appendEscapedRune tab r)
        @ quote_loop tab (drop width s))"
  by pat_completeness auto
termination
proof (relation "measure (\<lambda>(tab, s). length s)")
  show "wf (measure (\<lambda>(tab, s). length s))" by simp
next
  fix tab :: "nat \<Rightarrow> bool" and s :: string and rw r width
  assume "s \<noteq> []" "rw = nextRune s" "width = snd rw"
  then have "0 < width" using nextRune_width by simp
  with \<open>s \<noteq> []\<close> show "((tab, drop width s), (tab, s)) \<in> measure (\<lambda>(tab, s). length s)"
    by simp
qed

declare quote_loop.simps [simp del]

definition Quote :: "(nat \<Rightarrow> bool) \<Rightarrow> string \<Rightarrow> string" where
  "Quote tab s = CHR 0x22 # quote_loop tab s @ [CHR 0x22]"

text \<open>
  The body of a quoted string is well escaped when, read from the left, every
  backslash is followed by one more character (which it escapes) and no double
  quote stands outside such a pair: the closing quote is then the first quote
  that ends the string.
\<close>

fun well_escaped :: "string \<Rightarrow> bool" where
  "well_escaped [] = True"
| "well_escaped (c # cs) =
     (if c = CHR 0x5C then (case cs of [] \<Rightarrow> False | d # ds \<Rightarrow> well_escaped ds)
      else c \<noteq> CHR 0x22 \<and> well_escaped cs)"

definition plain :: "char \<Rightarrow> bool" where
  "plain c = (c \<noteq> CHR 0x5C \<and> c \<noteq> CHR 0x22)"

definition printable_plain :: "char \<Rightarrow> bool" where
  "printable_plain c = (0x20 \<le> (of_char c :: nat) \<and> (of_char c :: nat) \<le> 0x7E \<and> plain c)"

subsection \<open>Reading a quoted name back\<close>

text \<open>
  UTF-8 by arithmetic: the bytes that encode a code point.
\<close>

definition utf8_bytes :: "nat \<Rightarrow> string" where
  "utf8_bytes r =
     (if r < 0x80 then [char_of r]
      else if r < 0x800 then [char_of (0xC0 + r div 64), char_of (0x80 + r mod 64)]
      else if r < 0x10000 then
        [char_of (0xE0 + r div 4096), char_of (0x80 + r div 64 mod 64), char_of (0x80 + r mod 64)]
      else
        [char_of (0xF0 + r div 262144), char_of (0x80 + r div 4096 mod 64),
         char_of (0x80 + r div 64 mod 64), char_of (0x80 + r mod 64)])"

text \<open>
  Reading a quoted body back by the escaping rules of Go string literals: a backslash
  introduces \<^verbatim>\<open>\a \b \f \n \r \t \v \\ \"\<close>, \<^verbatim>\<open>\xhh\<close> (one byte), \<^verbatim>\<open>\uhhhh\<close> or
  \<^verbatim>\<open>\Uhhhhhhhh\<close> (a code point, stored in UTF-8); a double quote outside an escape
  ends the string and is not part of a body; every other byte stands for itself.
\<close>

definition hexval :: "char \<Rightarrow> nat option" where
  "hexval c =
     (let n = (of_char c :: nat) in
      if 48 \<le> n \<and> n \<le> 57 then Some (n - 48)
      else if 97 \<le> n \<and> n \<le> 102 then Some (n - 87)
      else if 65 \<le> n \<and> n \<le> 70 then Some (n - 55)
      else None)"

fun unhex :: "nat \<Rightarrow> string \<Rightarrow> nat option" where
  "unhex a [] = Some a"
| "unhex a (c # cs) = (case hexval c of None \<Rightarrow> None | Some d \<Rightarrow> unhex (16 * a + d) cs)"

definition simple_escape :: "char \<Rightarrow> char option" where
  "simple_escape e =
     (if e = CHR ''a'' then Some (CHR 0x07)
      else if e = CHR ''b'' then Some (CHR 0x08)
      else if e = CHR ''f'' then Some (CHR 0x0C)
      else if e = CHR ''n'' then Some (CHR 0x0A)
      else if e = CHR ''r'' then Some (CHR 0x0D)
      else if e = CHR ''t'' then Some (CHR 0x09)
      else if e = CHR ''v'' then Some (CHR 0x0B)
      else if e = CHR 0x5C then Some (CHR 0x5C)
      else if e = CHR 0x22 then Some (CHR 0x22)
      else None)"

fun unquote_body :: "string \<Rightarrow> string option" where
  "unquote_body [] = Some []"
| "unquote_body (c # cs) =
     (if c = CHR 0x22 then None
      else if c \<noteq> CHR 0x5C then map_option ((#) c) (unquote_body cs)
      else
        (case cs of
           [] \<Rightarrow> None
         | e # rest \<Rightarrow>
             if e = CHR ''x'' then
               (if length rest < 2 then None
                else case unhex 0 (take 2 rest) of
                       None \<Rightarrow> None
                     | Some v \<Rightarrow> map_option ((#) (char_of v)) (unquote_body (drop 2 rest)))
             else if e = CHR ''u'' then
               (if length rest < 4 then None
                else case unhex 0 (take 4 rest) of
                       None \<Rightarrow> None
                     | Some v \<Rightarrow> map_option ((@) (utf8_bytes v)) (unquote_body (drop 4 rest)))
             else if e = CHR ''U'' then
               (if length rest < 8 then None
                else case unhex 0 (take 8 rest) of
                       None \<Rightarrow> None
                     | Some v \<Rightarrow> map_option ((@) (utf8_bytes v)) (unquote_body (drop 8 rest)))
             else
               (case simple_escape e of
                  None \<Rightarrow> None
                | Some b \<Rightarrow> map_option ((#) b) (unquote_body rest))))"

text \<open>A byte that is no control character: not below \<^verbatim>\<open>0x20\<close> and not \<^verbatim>\<open>0x7F\<close>.\<close>

definition visible :: "char \<Rightarrow> bool" where
  "visible c = (0x20 \<le> (of_char c :: nat) \<and> (of_char c :: nat) \<noteq> 0x7F)"

declare unquote_body.simps(2) [simp del]

subsection \<open>The request handler\<close>

record Request =
  Method :: string
  URL_Path :: string
  Proto :: string
  RemoteAddr :: string
  Header :: "string \<rightharpoonup> string list"

text \<open>
  The response behind the \<^verbatim>\<open>http.ResponseWriter\<close>: the header map, the bytes sent as
  body so far, and what the server keeps for its write rule: the status (0 until the
  header is written), the declared Content-Length (\<open>-1\<close> when none is declared) and
  the count of bytes offered to \<^verbatim>\<open>Write\<close>.
\<close>

record ResponseWriter =
  respHeader :: "string \<rightharpoonup> string list"
  body :: string
  status :: nat
  contentLength :: int
  written :: nat

record Args =
  port :: string
  folder :: string
  silent :: bool
  https :: bool

datatype panic = IndexOutOfRange | NilPointerDereference

text \<open>What the platform supplies to the handler.\<close>

record platform =
  typeByExtension :: "string \<Rightarrow> string"
  isPathSeparator :: "char \<Rightarrow> bool"
  isPrintTable :: "nat \<Rightarrow> bool"

datatype variant = Part_000 | Main_go

definition Header_Get :: "(string \<rightharpoonup> string list) \<Rightarrow> string \<Rightarrow> string" where
  "Header_Get h key = (case h key of None \<Rightarrow> [] | Some [] \<Rightarrow> [] | Some (v # _) \<Rightarrow> v)"

definition Header_Set ::
  "(string \<rightharpoonup> string list) \<Rightarrow> string \<Rightarrow> string \<Rightarrow> (string \<rightharpoonup> string list)" where
  "Header_Set h key val = h(key \<mapsto> [val])"

definition style_lines :: "string list" where
  "style_lines =
     [
      [],
      ''<style>'',
      ''  body {'',
      ''    background: #111;'',
      ''    color: #def;'',
      ''  }'',
      [],
      ''  *, *::before, *::after {'',
      ''    font: 20px JetBrainsMono, mono, Menlo-Regular;'',
      ''    box-sizing: border-box;'',
      [],
      ''    scrollbar-width: thin;'',
      ''    scrollbar-color: #aef #0003;'',
      ''  }'',
      ''  *::-webkit-scrollbar-thumb {'',
      ''    background: #aef;'',
      ''    border-radius: 20rem;'',
      ''  }'',
      ''  *::-webkit-scrollbar-track {'',
      ''    background: #0003;'',
      ''  }'',
      ''  *::-webkit-scrollbar {'',
      ''    width: 3rem;'',
      ''  }'',
      [],
      ''  pre {'',
      ''    margin: 0;'',
      ''    padding: 0.5rem;'',
      ''  }'',
      [],
      ''  a {'',
      ''    color: #abf;'',
      ''    font-weight: bold;'',
      ''  }'',
      [],
      ''  a:visited {'',
      ''    color: #fba;'',
      ''  }'',
      [],
      ''  a:hover {'',
      ''    color: #aef;'',
      ''  }'',
      ''</style>''
     ]"

definition style :: string where
  "style = concat (map (\<lambda>l. l @ [CHR 0x0A]) style_lines)"

definition ESC :: string where
  "ESC = [CHR 0x1B]"

text \<open>The log line; part_000 prints the request path, main.go does not.\<close>

fun logLine :: "variant \<Rightarrow> Request \<Rightarrow> string" where
  "logLine Part_000 r =
     ESC @ ''[1m'' @ ESC @ ''[38;5;228m'' @ Method r @ '' '' @ URL_Path r @ '' ''
       @ ESC @ ''[38;5;195m'' @ Proto r @ ESC @ ''[0m ''
       @ ESC @ ''[38;5;225m'' @ RemoteAddr r @ ESC @ ''[0m | ''
       @ ESC @ ''[38;5;158m'' @ Header_Get (Header r) ''User-Agent'' @ ESC @ ''[0m'' @ [CHR 0x0A]"
| "logLine Main_go r =
     ESC @ ''[1m'' @ ESC @ ''[38;5;228m'' @ Method r @ '' ''
       @ ESC @ ''[38;5;195m'' @ Proto r @ ESC @ ''[0m ''
       @ ESC @ ''[38;5;225m'' @ RemoteAddr r @ ESC @ ''[0m | ''
       @ ESC @ ''[38;5;158m'' @ Header_Get (Header r) ''User-Agent'' @ ESC @ ''[0m'' @ [CHR 0x0A]"

definition logRequest :: "variant \<Rightarrow> Args \<Rightarrow> Request \<Rightarrow> string \<Rightarrow> string" where
  "logRequest v args r out = (if \<not> silent args then out @ logLine v r else out)"

text \<open>
  \<^verbatim>\<open>isDir := url[len(url)-1] == '/'\<close>: the index is \<open>-1\<close> for the empty path, and
  Go panics.
\<close>

definition isDir :: "string \<Rightarrow> panic + bool" where
  "isDir url =
     (if url = [] then Inl IndexOutOfRange else Inr (url ! (length url - 1) = CHR ''/''))"

definition disposition :: "(nat \<Rightarrow> bool) \<Rightarrow> string \<Rightarrow> string" where
  "disposition tab filename = ''attachment; filename='' @ Quote tab filename"

text \<open>The body of \<^verbatim>\<open>if !isDir { ... }\<close>.\<close>

definition setDisposition :: "platform \<Rightarrow> string \<Rightarrow> ResponseWriter \<Rightarrow> ResponseWriter" where
  "setDisposition pf url w =
     (let filename = Base url in
      if isMedia (typeByExtension pf) (isPathSeparator pf) filename then
        w\<lparr>respHeader :=
            Header_Set (respHeader w) ''Content-Disposition''
              (disposition (isPrintTable pf) filename)\<rparr>
      else w)"

text \<open>
  \<^verbatim>\<open>io.WriteString(w, style)\<close> calls the write method of the response writer, which
  is an interface: the method is the parameter \<open>wr\<close> of the handler. It returns the
  response after the call and the error, if any.

  \<open>response_write\<close> is the write rule of the standard server for requests other
  than HEAD: the header is sent with status 200 if it was not sent before; an empty
  write does nothing; a status that allows no body (1xx, 204, 304) refuses the write;
  the bytes are counted, and the write is refused when the count passes the declared
  Content-Length; otherwise the bytes are appended to the body.
\<close>

definition bodyAllowedForStatus :: "nat \<Rightarrow> bool" where
  "bodyAllowedForStatus st =
     (if 100 \<le> st \<and> st \<le> 199 then False
      else if st = 204 then False
      else if st = 304 then False
      else True)"

definition ErrBodyNotAllowed :: string where
  "ErrBodyNotAllowed = ''http: request method or response status code does not allow body''"

definition ErrContentLength :: string where
  "ErrContentLength = ''http: wrote more than the declared Content-Length''"

definition response_write :: "ResponseWriter \<Rightarrow> string \<Rightarrow> ResponseWriter \<times> string option" where
  "response_write w dat =
     (let w1 = (if status w = 0 then w\<lparr>status := 200\<rparr> else w) in
      if dat = [] then (w1, None)
      else if \<not> bodyAllowedForStatus (status w1) then (w1, Some ErrBodyNotAllowed)
      else
        let w2 = w1\<lparr>written := written w1 + length dat\<rparr> in
        if contentLength w2 \<noteq> -1 \<and> int (written w2) > contentLength w2
        then (w2, Some ErrContentLength)
        else (w2\<lparr>body := body w2 @ dat\<rparr>, None))"

text \<open>
  The handler (part_000 lines 28-56, main.go lines 21-48). The delegated file
  server \<^verbatim>\<open>fs.ServeHTTP\<close> is the parameter \<open>fs\<close>; \<open>out\<close> is the standard output.
  The result of writing the style is discarded, as in the source.
\<close>

definition handler ::
  "variant \<Rightarrow> platform \<Rightarrow> (ResponseWriter \<Rightarrow> Request \<Rightarrow> ResponseWriter)
     \<Rightarrow> (ResponseWriter \<Rightarrow> string \<Rightarrow> ResponseWriter \<times> string option) \<Rightarrow> Args
     \<Rightarrow> Request \<Rightarrow> ResponseWriter \<Rightarrow> string \<Rightarrow> panic + (ResponseWriter \<times> string)" where
  "handler v pf fs wr args r w out =
     (let url = URL_Path r in
      case isDir url of
        Inl p \<Rightarrow> Inl p
      | Inr dir \<Rightarrow>
          let w1 = (if \<not> dir then setDisposition pf url w else w);
              w2 = fs w1 r;
              w3 = (if dir then fst (wr w2 style) else w2)
          in Inr (w3, logRequest v args r out))"

text \<open>The final path segment in the words of the specification: the text after the last slash.\<close>

definition final_segment :: "string \<Rightarrow> string" where
  "final_segment url = rev (takeWhile (\<lambda>c. c \<noteq> CHR ''/'') (rev url))"

text \<open>Sample values for evaluating the handler.\<close>

definition sample_platform :: platform where
  "sample_platform =
     \<lparr>typeByExtension = sample_tbe, isPathSeparator = unix_sep, isPrintTable = (\<lambda>_. False)\<rparr>"

text \<open>
  Two file servers: \<open>sample_fs\<close> answers with a listing and declares no length;
  \<open>index_fs\<close> answers a directory request with an index page of five bytes and
  declares its length, as the standard file server does for \<^verbatim>\<open>index.html\<close>.
\<close>

definition sample_fs :: "ResponseWriter \<Rightarrow> Request \<Rightarrow> ResponseWriter" where
  "sample_fs w r =
     fst (response_write (w\<lparr>status := 200\<rparr>) (''<pre>'' @ URL_Path r @ ''</pre>''))"


definition sample_request :: "string \<Rightarrow> Request" where
  "sample_request url =
     \<lparr>Method = ''GET'', URL_Path = url, Proto = ''HTTP/1.1'', RemoteAddr = ''127.0.0.1:4000'',
      Header = Map.empty\<rparr>"

definition sample_args :: Args where
  "sample_args = \<lparr>port = ''1080'', folder = ''public'', silent = True, https = False\<rparr>"

definition empty_response :: ResponseWriter where
  "empty_response =
     \<lparr>respHeader = Map.empty, body = [], status = 0, contentLength = -1, written = 0\<rparr>"

subsection \<open>The local address\<close>

text \<open>
  \<^verbatim>\<open>net.IP\<close> is a byte slice, here a list of byte values; \<^verbatim>\<open>nil\<close> results are
  \<open>None\<close>. \<^verbatim>\<open>net.Addr\<close> is an interface: the handler only distinguishes
  \<^verbatim>\<open>*net.IPNet\<close> from every other implementation.
\<close>

type_synonym IP = "nat list"

datatype Addr = IPNet IP IP | OtherAddr string

definition v4InV6Prefix :: IP where
  "v4InV6Prefix = [0, 0, 0, 0, 0, 0, 0, 0, 0, 0, 0xff, 0xff]"

definition IPv6loopback :: IP where
  "IPv6loopback = [0, 0, 0, 0, 0, 0, 0, 0, 0, 0, 0, 0, 0, 0, 0, 1]"

definition isZeros :: "IP \<Rightarrow> bool" where
  "isZeros p = list_all (\<lambda>b. b = 0) p"

definition To4 :: "IP \<Rightarrow> IP option" where
  "To4 ip =
     (if length ip = 4 then Some ip
      else if length ip = 16 \<and> isZeros (take 10 ip) \<and> ip ! 10 = 0xff \<and> ip ! 11 = 0xff
        then Some (take 4 (drop 12 ip))
      else None)"

definition IP_Equal :: "IP \<Rightarrow> IP \<Rightarrow> bool" where
  "IP_Equal ip x =
     (if length ip = length x then ip = x
      else if length ip = 4 \<and> length x = 16 then take 12 x = v4InV6Prefix \<and> ip = drop 12 x
      else if length ip = 16 \<and> length x = 4 then take 12 ip = v4InV6Prefix \<and> drop 12 ip = x
      else False)"

definition IsLoopback :: "IP \<Rightarrow> bool" where
  "IsLoopback ip =
     (case To4 ip of Some ip4 \<Rightarrow> ip4 ! 0 = 127 | None \<Rightarrow> IP_Equal ip IPv6loopback)"

text \<open>Decimal digits of a number, as \<^verbatim>\<open>netip\<close> prints the bytes of an IPv4 address.\<close>

function decimal :: "nat \<Rightarrow> string" where
  "decimal n =
     (if n < 10 then [''0123456789'' ! n] else decimal (n div 10) @ [''0123456789'' ! (n mod 10)])"
  by pat_completeness auto
termination
  by (relation "measure id") auto

declare decimal.simps [simp del]

definition dotted :: "IP \<Rightarrow> string" where
  "dotted p4 =
     decimal (p4 ! 0) @ ''.'' @ decimal (p4 ! 1) @ ''.'' @ decimal (p4 ! 2) @ ''.'' @ decimal (p4 ! 3)"

definition hexString :: "IP \<Rightarrow> string" where
  "hexString b = concat (map (\<lambda>x. [lowerhex ! (drop_bit 4 x), lowerhex ! (x AND 0xF)]) b)"

text \<open>
  \<^verbatim>\<open>IP.String\<close>. The textual form of a proper IPv6 address (\<^verbatim>\<open>netip.Addr.String\<close>)
  is the parameter \<open>v6\<close>; \<^verbatim>\<open>getLocalAddr\<close> never reaches it.
\<close>

definition IP_String :: "(IP \<Rightarrow> string) \<Rightarrow> IP \<Rightarrow> string" where
  "IP_String v6 ip =
     (if length ip = 0 then ''<nil>''
      else if length ip \<noteq> 4 \<and> length ip \<noteq> 16 then ''?'' @ hexString ip
      else case To4 ip of
             Some p4 \<Rightarrow> if length p4 = 4 then dotted p4 else v6 ip
           | None \<Rightarrow> v6 ip)"

text \<open>
  \<^verbatim>\<open>getLocalAddr\<close> (part_000 lines 141-151, main.go lines 117-129). The loop
  returns at the first address that is an \<^verbatim>\<open>*net.IPNet\<close>, not a loopback address
  and has an IPv4 form; \<open>None\<close> stands for leaving the loop without a return.
\<close>

fun getLocalAddr_loop :: "(IP \<Rightarrow> string) \<Rightarrow> Addr list \<Rightarrow> string option" where
  "getLocalAddr_loop v6 [] = None"
| "getLocalAddr_loop v6 (IPNet ip msk # addrs) =
     (if \<not> IsLoopback ip \<and> To4 ip \<noteq> None then Some (IP_String v6 ip)
      else getLocalAddr_loop v6 addrs)"
| "getLocalAddr_loop v6 (OtherAddr a # addrs) = getLocalAddr_loop v6 addrs"

text \<open>The argument is what \<^verbatim>\<open>net.InterfaceAddrs()\<close> returned: an error or the addresses.\<close>

definition getLocalAddr :: "(IP \<Rightarrow> string) \<Rightarrow> string + Addr list \<Rightarrow> string" where
  "getLocalAddr v6 res =
     (case res of
        Inl err \<Rightarrow> ''127.0.0.1''
      | Inr addrs \<Rightarrow>
          (case getLocalAddr_loop v6 addrs of Some s \<Rightarrow> s | None \<Rightarrow> ''127.0.0.1''))"

text \<open>
  A non-loopback IPv4 interface address in the words of the specification: an IP
  network address of four bytes, or of sixteen bytes in the IPv4-mapped form, whose
  first IPv4 byte is not 127.
\<close>

fun nonLoopbackIPv4 :: "Addr \<Rightarrow> bool" where
  "nonLoopbackIPv4 (IPNet ip msk) =
     (case To4 ip of Some p4 \<Rightarrow> p4 ! 0 \<noteq> 127 | None \<Rightarrow> False)"
| "nonLoopbackIPv4 (OtherAddr a) = False"

fun addrIP :: "Addr \<Rightarrow> IP" where
  "addrIP (IPNet ip msk) = ip"
| "addrIP (OtherAddr a) = []"

definition sample_addrs :: "Addr list" where
  "sample_addrs =
     [IPNet [127, 0, 0, 1] [255, 0, 0, 0],
      IPNet IPv6loopback [],
      OtherAddr ''unix'',
      IPNet [0, 0, 0, 0, 0, 0, 0, 0, 0, 0, 0xff, 0xff, 192, 168, 1, 20] [],
      IPNet [10, 0, 0, 7] [255, 0, 0, 0]]"

text \<open>
  Reading a decimal numeral, in the words of the specification of dotted-decimal
  notation: one or more digits, no leading zero except for the number zero itself.
\<close>

definition digit_value :: "char \<Rightarrow> nat option" where
  "digit_value c =
     (let n = (of_char c :: nat) in if 48 \<le> n \<and> n \<le> 57 then Some (n - 48) else None)"

fun parse_digits :: "nat \<Rightarrow> string \<Rightarrow> nat option" where
  "parse_digits a [] = Some a"
| "parse_digits a (c # cs) =
     (case digit_value c of None \<Rightarrow> None | Some d \<Rightarrow> parse_digits (10 * a + d) cs)"

definition parse_decimal :: "string \<Rightarrow> nat option" where
  "parse_decimal s =
     (if s = [] \<or> (hd s = CHR ''0'' \<and> s \<noteq> ''0'') then None else parse_digits 0 s)"

subsection \<open>The self-signed certificate\<close>

text \<open>
  The parts of \<^verbatim>\<open>crypto/x509\<close>, \<^verbatim>\<open>crypto/ecdsa\<close> and \<^verbatim>\<open>crypto/tls\<close> that
  \<^verbatim>\<open>generateTLSConfig\<close> touches. A \<^verbatim>\<open>time.Time\<close> is an instant in nanoseconds, a
  \<^verbatim>\<open>time.Duration\<close> a number of nanoseconds; \<^verbatim>\<open>KeyUsage\<close> and \<^verbatim>\<open>ExtKeyUsage\<close> are
  Go \<^verbatim>\<open>int\<close>s with the constants of \<^verbatim>\<open>crypto/x509\<close>. A \<^verbatim>\<open>nil\<close> serial number is
  \<open>None\<close>; a \<^verbatim>\<open>nil\<close> byte slice is the empty list.
\<close>

definition Hour :: int where
  "Hour = 60 * (60 * (1000 * (1000 * (1000 * 1))))"

definition KeyUsageDigitalSignature :: int where
  "KeyUsageDigitalSignature = push_bit 0 1"

definition KeyUsageKeyEncipherment :: int where
  "KeyUsageKeyEncipherment = push_bit 2 1"

definition ExtKeyUsageServerAuth :: int where
  "ExtKeyUsageServerAuth = 1"

record pkix_Name =
  CommonName :: string

record x509_Certificate =
  SerialNumber :: "int option"
  Subject :: pkix_Name
  NotBefore :: int
  NotAfter :: int
  KeyUsage :: int
  ExtKeyUsage :: "int list"

record ecdsa_PublicKey =
  X :: int
  Y :: int

record ecdsa_PrivateKey =
  PublicKey :: ecdsa_PublicKey
  D :: int

record tls_Certificate =
  Certificate :: "string list"
  PrivateKey :: ecdsa_PrivateKey

record tls_Config =
  Certificates :: "tls_Certificate list"

text \<open>
  What the outside world answers during one call of \<^verbatim>\<open>generateTLSConfig\<close>:
  the key \<^verbatim>\<open>ecdsa.GenerateKey\<close> returns (\<open>None\<close>: it returned an error and a
  \<^verbatim>\<open>nil\<close> key), the clock, the number the random source yields for \<^verbatim>\<open>rand.Int\<close>
  (\<open>None\<close>: reading it failed), and \<^verbatim>\<open>x509.CreateCertificate\<close> as a function of its
  template, parent, public key and signing key (\<open>None\<close>: it returned an error).
\<close>

record crypto =
  generatedKey :: "ecdsa_PrivateKey option"
  timeNow :: int
  entropy :: "nat option"
  createCertificate ::
    "x509_Certificate \<Rightarrow> x509_Certificate \<Rightarrow> ecdsa_PublicKey \<Rightarrow> ecdsa_PrivateKey
       \<Rightarrow> string option"

text \<open>
  \<^verbatim>\<open>rand.Int(rand.Reader, mx)\<close> returns a uniform random value in \<open>[0, mx)\<close>, or
  \<^verbatim>\<open>nil\<close> and an error when the random source cannot be read.
\<close>

definition rand_Int :: "nat option \<Rightarrow> int \<Rightarrow> int option" where
  "rand_Int e mx = (case e of None \<Rightarrow> None | Some x \<Rightarrow> Some (int x mod mx))"

text \<open>
  The local \<^verbatim>\<open>template\<close> of \<^verbatim>\<open>generateTLSConfig\<close> (part_000 lines 157-168).
\<close>

definition template :: "crypto \<Rightarrow> x509_Certificate" where
  "template c =
     (let notBefore = timeNow c;
          notAfter = notBefore + 365 * 24 * Hour;
          serialNumber = rand_Int (entropy c) (push_bit 62 1)
      in \<lparr>SerialNumber = serialNumber,
          Subject = \<lparr>CommonName = ''localhost''\<rparr>,
          NotBefore = notBefore,
          NotAfter = notAfter,
          KeyUsage = KeyUsageKeyEncipherment OR KeyUsageDigitalSignature,
          ExtKeyUsage = [ExtKeyUsageServerAuth]\<rparr>)"

text \<open>
  \<^verbatim>\<open>generateTLSConfig\<close> (part_000 lines 154-179). Every error result is discarded
  with \<^verbatim>\<open>_\<close>. With a \<^verbatim>\<open>nil\<close> key the argument \<^verbatim>\<open>&priv.PublicKey\<close> dereferences
  \<^verbatim>\<open>nil\<close> and the program panics; a failed \<^verbatim>\<open>CreateCertificate\<close> leaves
  \<^verbatim>\<open>derBytes\<close> \<^verbatim>\<open>nil\<close>.
\<close>

definition generateTLSConfig :: "crypto \<Rightarrow> panic + tls_Config" where
  "generateTLSConfig c =
     (case generatedKey c of
        None \<Rightarrow> Inl NilPointerDereference
      | Some priv \<Rightarrow>
          let derBytes =
                (case createCertificate c (template c) (template c) (PublicKey priv) priv of
                   None \<Rightarrow> [] | Some der \<Rightarrow> der);
              cert = \<lparr>Certificate = [derBytes], PrivateKey = priv\<rparr>
          in Inr \<lparr>Certificates = [cert]\<rparr>)"

subsection \<open>Startup\<close>

text \<open>
  How \<^verbatim>\<open>main\<close> ends (part_000 lines 58-76). \<^verbatim>\<open>ListenAndServe\<close> and
  \<^verbatim>\<open>ListenAndServeTLS\<close> return only with an error, which \<^verbatim>\<open>log.Fatal\<close> prints
  before it exits with status 1; otherwise the process keeps serving. The listen
  call is the parameter \<open>listen\<close>: its argument is the TLS configuration (\<open>None\<close> for
  plain HTTP), its result the error it returns (\<open>None\<close>: it does not return).
\<close>

datatype outcome = Panicked panic | Fatal string | Serving "tls_Config option"

definition banner :: "string \<Rightarrow> string \<Rightarrow> string" where
  "banner prt addr =
     ESC @ ''[1m'' @ ESC @ ''[38;5;159mhttp://localhost:'' @ prt @ [CHR 0x0A]
       @ ESC @ ''[38;5;158mhttp://'' @ addr @ '':'' @ prt @ [CHR 0x0A]
       @ ESC @ ''[38;5;225mCtrl-C'' @ ESC @ ''[0m to exit'' @ [CHR 0x0A]"

definition banner_https :: "string \<Rightarrow> string \<Rightarrow> string" where
  "banner_https prt addr =
     ESC @ ''[38;5;159mhttps://localhost:'' @ prt @ [CHR 0x0A]
       @ ESC @ ''[38;5;158mhttps://'' @ addr @ '':'' @ prt @ [CHR 0x0A]"

definition main ::
  "(IP \<Rightarrow> string) \<Rightarrow> (string + Addr list) \<Rightarrow> crypto \<Rightarrow> (tls_Config option \<Rightarrow> string option)
     \<Rightarrow> Args \<Rightarrow> string \<times> outcome" where
  "main v6 ifaddrs c listen args =
     (let out = banner (port args) (getLocalAddr v6 ifaddrs) in
      if https args then
        (let out2 = out @ banner_https (port args) (getLocalAddr v6 ifaddrs) in
         case generateTLSConfig c of
           Inl p \<Rightarrow> (out2, Panicked p)
         | Inr tlsConfig \<Rightarrow>
             (case listen (Some tlsConfig) of
                Some err \<Rightarrow> (out2, Fatal err)
              | None \<Rightarrow> (out2, Serving (Some tlsConfig))))
      else
        (case listen None of
           Some err \<Rightarrow> (out, Fatal err)
         | None \<Rightarrow> (out, Serving None)))"

text \<open>Sample outcomes of the outside world.\<close>

definition sample_key :: ecdsa_PrivateKey where
  "sample_key = \<lparr>PublicKey = \<lparr>X = 5, Y = 7\<rparr>, D = 3\<rparr>"

definition good_crypto :: crypto where
  "good_crypto =
     \<lparr>generatedKey = Some sample_key, timeNow = 1000, entropy = Some 12345,
      createCertificate = (\<lambda>t p pub priv. Some ''DER'')\<rparr>"

definition zero_serial_crypto :: crypto where
  "zero_serial_crypto = good_crypto\<lparr>entropy := Some 0\<rparr>"

definition failing_crypto :: crypto where
  "failing_crypto =
     \<lparr>generatedKey = Some sample_key, timeNow = 1000, entropy = None,
      createCertificate = (\<lambda>t p pub priv. None)\<rparr>"

definition https_args :: Args where
  "https_args = \<lparr>port = ''1080'', folder = ''public'', silent = False, https = True\<rparr>"

section \<open>Properties\<close>

subsection \<open>The extension scan\<close>

lemma Ext_loop_append:
  "n \<le> length p \<Longrightarrow>
   Ext_loop sep (p @ t) n = (let e = Ext_loop sep p n in if e = [] then [] else e @ t)"
proof (induction n)
  case 0
  show ?case by simp
next
  case (Suc i)
  then have i: "i < length p" by simp
  then have nth: "(p @ t) ! i = p ! i" by (simp add: nth_append)
  from i have ne: "drop i p \<noteq> []" by simp
  from Suc i nth ne show ?case by (simp add: Let_def)
qed

lemma Ext_snoc:
  "Ext sep (p @ [c]) =
     (if sep c then []
      else if c = CHR ''.'' then [c]
      else (let e = Ext sep p in if e = [] then [] else e @ [c]))"
  using Ext_loop_append [of "length p" p sep "[c]"]
  by (simp add: Ext_def Let_def)

lemma final_dot_ext_snoc:
  "final_dot_ext (p @ [c]) =
     (if c = CHR ''.'' then [c]
      else (let e = final_dot_ext p in if e = [] then [] else e @ [c]))"
  by (simp add: final_dot_ext_def Let_def)

lemma Ext_final_dot_ext:
  "Ext sep f = (let e = final_dot_ext f in if (\<exists>c \<in> set e. sep c) then [] else e)"
proof (induction f rule: rev_induct)
  case Nil
  show ?case by (simp add: Ext_def final_dot_ext_def)
next
  case (snoc c p)
  show ?case
    unfolding Ext_snoc final_dot_ext_snoc using snoc
    by (auto simp: Let_def)
qed

text \<open>
  C10. \<^verbatim>\<open>isMedia\<close> depends on the file name only through its final-dot extension:
  two names with equal final-dot extensions get the same answer, whatever the
  platform's separator test and MIME table are.
\<close>

theorem isMedia_depends_on_extension_only:
  "final_dot_ext f = final_dot_ext g \<Longrightarrow> isMedia tbe sep f = isMedia tbe sep g"
  by (simp add: isMedia_def Ext_final_dot_ext)

theorem isMedia_depends_on_extension_only_witness:
  "final_dot_ext ''report.pdf'' = final_dot_ext ''a.b.pdf''
   \<and> isMedia sample_tbe unix_sep ''report.pdf'' = isMedia sample_tbe unix_sep ''a.b.pdf''
   \<and> isMedia sample_tbe unix_sep ''report.pdf''"
proof -
  have h: "final_dot_ext ''report.pdf'' = final_dot_ext ''a.b.pdf''"
    by (simp add: final_dot_ext_def)
  have m: "isMedia sample_tbe unix_sep ''report.pdf''"
    by (simp add: isMedia_def Ext_def unix_sep_def sample_tbe_def mediaTypes_def)
  from isMedia_depends_on_extension_only [OF h, of sample_tbe unix_sep] h m
  show ?thesis by simp
qed

subsection \<open>The final path segment\<close>

lemma stripTrailingSlashes_id: "p \<noteq> [] \<Longrightarrow> last p \<noteq> CHR ''/'' \<Longrightarrow> stripTrailingSlashes p = p"
  by (subst stripTrailingSlashes.simps) simp

lemma lastSlash_loop_append: "n \<le> length s \<Longrightarrow> lastSlash_loop (s @ t) n = lastSlash_loop s n"
  by (induction n) (simp_all add: nth_append)

lemma lastSlash_snoc:
  "lastSlash (s @ [c]) = (if c \<noteq> CHR ''/'' then lastSlash s else int (length s))"
  by (simp add: lastSlash_def lastSlash_loop_append)

lemma lastSlash_loop_bound: "lastSlash_loop s n < int n"
  by (induction n) auto

lemma lastSlash_bound: "lastSlash s < int (length s)"
  by (simp add: lastSlash_def lastSlash_loop_bound)

lemma final_segment_snoc:
  "final_segment (s @ [c]) = (if c \<noteq> CHR ''/'' then final_segment s @ [c] else [])"
  by (simp add: final_segment_def)

lemma after_lastSlash:
  "(if lastSlash s \<ge> 0 then drop (nat (lastSlash s + 1)) s else s) = final_segment s"
proof (induction s rule: rev_induct)
  case Nil
  show ?case by (simp add: final_segment_def)
next
  case (snoc c s)
  show ?case
  proof (cases "c = CHR ''/''")
    case True
    then show ?thesis by (simp add: lastSlash_snoc final_segment_snoc nat_add_distrib)
  next
    case False
    have b: "nat (lastSlash s + 1) \<le> length s" using lastSlash_bound [of s] by simp
    from False snoc b show ?thesis
      by (auto simp: lastSlash_snoc final_segment_snoc split: if_splits)
  qed
qed

lemma final_segment_nonempty: "url \<noteq> [] \<Longrightarrow> last url \<noteq> CHR ''/'' \<Longrightarrow> final_segment url \<noteq> []"
  by (cases url rule: rev_cases) (simp_all add: final_segment_snoc)

lemma Base_final_segment:
  "url \<noteq> [] \<Longrightarrow> last url \<noteq> CHR ''/'' \<Longrightarrow> Base url = final_segment url"
  using after_lastSlash [of url] final_segment_nonempty [of url]
  by (simp add: Base_def stripTrailingSlashes_id Let_def)

lemma isDir_last: "url \<noteq> [] \<Longrightarrow> isDir url = Inr (last url = CHR ''/'')"
  by (simp add: isDir_def last_conv_nth)

subsection \<open>Escaping\<close>

lemma well_escaped_append:
  "well_escaped a \<Longrightarrow> well_escaped b \<Longrightarrow> well_escaped (a @ b)"
  by (induction a rule: well_escaped.induct) (auto split: list.splits if_splits)

lemma well_escaped_plain: "list_all plain xs \<Longrightarrow> well_escaped xs"
  by (induction xs) (auto simp: plain_def)

lemma well_escaped_escape: "list_all plain xs \<Longrightarrow> well_escaped (CHR 0x5C # c # xs)"
  by (simp add: well_escaped_plain)

lemma plain_high: "bit m 7 \<Longrightarrow> plain (char_of ((m::nat) OR x))"
proof -
  assume m: "bit m 7"
  have b: "bit (take_bit 8 (m OR x)) 7"
    using m by (simp add: bit_take_bit_iff bit_or_iff)
  have "of_char (char_of (m OR x)) = take_bit 8 (m OR x)"
    by (simp add: take_bit_eq_mod)
  with b have c: "bit (of_char (char_of (m OR x)) :: nat) 7" by simp
  have "\<not> bit (of_char (CHR 0x5C) :: nat) 7" "\<not> bit (of_char (CHR 0x22) :: nat) 7"
    by (simp_all add: bit_iff_odd)
  with c show ?thesis unfolding plain_def by metis
qed

lemma and_15_less: "(x::nat) AND 0xF < 16"
proof -
  have "x AND 0xF = take_bit 4 x"
    using take_bit_eq_mask [of 4 x] by (simp add: mask_eq_exp_minus_1)
  then show ?thesis by (simp add: take_bit_eq_mod)
qed

lemma plain_lowerhex: "k < 16 \<Longrightarrow> plain (lowerhex ! k)"
proof -
  assume k: "k < 16"
  have "list_all plain lowerhex" by (simp add: lowerhex_def plain_def)
  moreover have "length lowerhex = 16" by (simp add: lowerhex_def)
  ultimately show ?thesis using k by (simp add: list_all_length)
qed

lemma plain_hex_and: "plain (lowerhex ! ((x::nat) AND 0xF))"
  by (rule plain_lowerhex [OF and_15_less])

lemma plain_char_of:
  "r < 256 \<Longrightarrow> r \<noteq> 0x5C \<Longrightarrow> r \<noteq> 0x22 \<Longrightarrow> plain (char_of (r::nat))"
proof -
  assume r: "r < 256" "r \<noteq> 0x5C" "r \<noteq> 0x22"
  have "of_char (char_of r) = r" using r(1) by simp
  moreover have "(of_char (CHR 0x5C) :: nat) = 0x5C" "(of_char (CHR 0x22) :: nat) = 0x22"
    by simp_all
  ultimately show ?thesis using r(2,3) unfolding plain_def by metis
qed

lemma bit7: "bit (0x80::nat) 7" "bit (0xC0::nat) 7" "bit (0xE0::nat) 7" "bit (0xF0::nat) 7"
  by (simp_all add: bit_iff_odd)

lemma plain_lead:
  "plain (char_of ((0x80::nat) OR x))" "plain (char_of ((0xC0::nat) OR x))"
  "plain (char_of ((0xE0::nat) OR x))" "plain (char_of ((0xF0::nat) OR x))"
  by (rule plain_high, rule bit7)+

lemma plain_AppendRune:
  "r \<noteq> 0x22 \<Longrightarrow> r \<noteq> 0x5C \<Longrightarrow> list_all plain (AppendRune r)"
proof -
  assume r: "r \<noteq> 0x22" "r \<noteq> 0x5C"
  have one: "r \<le> 0x7F \<Longrightarrow> plain (char_of (byte r))"
  proof -
    assume "r \<le> 0x7F"
    then have "byte r = r" "r < 256" by (simp_all add: byte_def)
    with r show ?thesis by (simp add: plain_char_of)
  qed
  show ?thesis
    unfolding AppendRune_def using one
    by (simp add: plain_lead del: One_nat_def)
qed

lemma byte_less: "byte r < 256"
  by (simp add: byte_def)

lemma drop4_less: "x < 256 \<Longrightarrow> drop_bit 4 (x::nat) < 16"
proof -
  assume "x < 256"
  then have "x div 16 < 16" by arith
  then show ?thesis by (simp add: drop_bit_eq_div)
qed

lemma of_char_less: "(of_char c :: nat) < 256"
proof -
  have "(of_char c :: nat) mod 256 = of_char c" by (rule of_char_mod_256)
  moreover have "(of_char c :: nat) mod 256 < 256" by simp
  ultimately show ?thesis by simp
qed

lemma well_escaped_appendEscapedRune: "well_escaped (appendEscapedRune tab r)"
proof -
  consider (q) "r = 0x22 \<or> r = 0x5C"
    | (p) "\<not> (r = 0x22 \<or> r = 0x5C)" "IsPrint tab r"
    | (o) "\<not> (r = 0x22 \<or> r = 0x5C)" "\<not> IsPrint tab r"
    by blast
  then show ?thesis
  proof cases
    case q
    then show ?thesis
      by (auto simp: appendEscapedRune_def well_escaped_escape simp del: well_escaped.simps)
  next
    case p
    then have "list_all plain (AppendRune r)" by (simp add: plain_AppendRune)
    then have "well_escaped (AppendRune r)" by (rule well_escaped_plain)
    with p show ?thesis by (simp add: appendEscapedRune_def)
  next
    case o
    have x: "plain (lowerhex ! drop_bit 4 (byte r))"
      by (rule plain_lowerhex [OF drop4_less [OF byte_less]])
    from o x show ?thesis
      by (simp add: appendEscapedRune_def Let_def plain_hex_and well_escaped_escape
            del: well_escaped.simps)
  qed
qed

lemma quote_loop_unfold:
  "s \<noteq> [] \<Longrightarrow>
   quote_loop tab s =
     (if snd (nextRune s) = 1 \<and> fst (nextRune s) = RuneError then
        [CHR 0x5C, CHR ''x'',
         lowerhex ! (drop_bit 4 (of_char (s ! 0) :: nat)),
         lowerhex ! ((of_char (s ! 0) :: nat) AND 0xF)]
      else appendEscapedRune tab (fst (nextRune s)))
     @ quote_loop tab (drop (snd (nextRune s)) s)"
  by (subst quote_loop.simps) (simp add: Let_def)

lemma well_escaped_quote_loop: "well_escaped (quote_loop tab s)"
proof (induction tab s rule: quote_loop.induct)
  case (1 tab s)
  show ?case
  proof (cases "s = []")
    case True
    then show ?thesis by (simp add: quote_loop.simps)
  next
    case False
    let ?rw = "nextRune s"
    have rest: "well_escaped (quote_loop tab (drop (snd ?rw) s))"
      using "1" [OF False refl refl refl] .
    have x: "well_escaped [CHR 0x5C, CHR ''x'',
            lowerhex ! (drop_bit 4 (of_char (s ! 0) :: nat)),
            lowerhex ! ((of_char (s ! 0) :: nat) AND 0xF)]"
      by (simp add: plain_hex_and plain_lowerhex [OF drop4_less [OF of_char_less]]
            well_escaped_escape del: well_escaped.simps)
    have chunk: "well_escaped (if snd ?rw = 1 \<and> fst ?rw = RuneError then
           [CHR 0x5C, CHR ''x'',
            lowerhex ! (drop_bit 4 (of_char (s ! 0) :: nat)),
            lowerhex ! ((of_char (s ! 0) :: nat) AND 0xF)]
         else appendEscapedRune tab (fst ?rw))"
      using x well_escaped_appendEscapedRune by (simp del: well_escaped.simps)
    from chunk rest show ?thesis
      by (simp only: quote_loop_unfold [OF False] well_escaped_append)
  qed
qed

lemma quote_loop_plain: "list_all printable_plain s \<Longrightarrow> quote_loop tab s = s"
proof (induction s)
  case Nil
  show ?case by (simp add: quote_loop.simps)
next
  case (Cons c s)
  then have c: "0x20 \<le> (of_char c :: nat)" "(of_char c :: nat) \<le> 0x7E" "plain c"
    by (simp_all add: printable_plain_def)
  from c(3) have "(of_char c :: nat) \<noteq> of_char (CHR 0x22)" "(of_char c :: nat) \<noteq> of_char (CHR 0x5C)"
    unfolding plain_def by (simp_all only: of_char_eq_iff not_False_eq_True)
  then have n: "(of_char c :: nat) \<noteq> 0x22" "(of_char c :: nat) \<noteq> 0x5C" by simp_all
  have nr: "nextRune (c # s) = (of_char c, 1)"
    using c by (simp add: nextRune_def RuneSelf_def)
  have ap: "appendEscapedRune tab (of_char c) = [c]"
    using c n by (simp add: appendEscapedRune_def IsPrint_def AppendRune_def byte_def)
  have "quote_loop tab (c # s) = [c] @ quote_loop tab s"
    using c(2) by (simp add: quote_loop_unfold nr ap RuneError_def)
  with Cons show ?case by simp
qed

lemma Quote_plain: "list_all printable_plain s \<Longrightarrow> Quote tab s = CHR 0x22 # s @ [CHR 0x22]"
  by (simp add: Quote_def quote_loop_plain)

subsection \<open>The handler\<close>

lemma handler_nonempty:
  "URL_Path r \<noteq> [] \<Longrightarrow>
   handler v pf fs wr args r w out =
     Inr (if last (URL_Path r) = CHR ''/''
          then fst (wr (fs w r) style)
          else fs (setDisposition pf (URL_Path r) w) r,
          logRequest v args r out)"
  by (simp add: handler_def isDir_last Let_def)

lemma sample_printable: "list_all printable_plain ''report.pdf''"
  by (simp add: printable_plain_def plain_def)

lemma sample_segment: "final_segment ''/docs/report.pdf'' = ''report.pdf''"
  by (simp add: final_segment_def)

lemma Ext_of_segment:
  "Ext sep seg =
     (if \<exists>c \<in> set (final_dot_ext seg). sep c then [] else final_dot_ext seg)"
  by (simp add: Ext_final_dot_ext Let_def)

text \<open>
  C9. The directory check indexes the path at \<open>length - 1\<close> without testing for
  emptiness: the handler panics with an index out of range exactly when the request
  path is empty, and returns normally for every non-empty path.
\<close>

theorem handler_panics_exactly_on_empty_path:
  "(handler v pf fs wr args r w out = Inl IndexOutOfRange) = (URL_Path r = [])
   \<and> (\<exists>res. handler v pf fs wr args r w out = Inr res) = (URL_Path r \<noteq> [])"
  by (cases "URL_Path r = []") (simp_all add: handler_def isDir_def Let_def)

text \<open>
  C2. A request path is classified as a directory request exactly when it has a final
  character and that character is the slash. For a path so classified the handler
  hands the response to the file server as it received it, so it sets no
  Content-Disposition header; afterwards it only writes the style fragment to the
  response the file server left.
\<close>

theorem directory_request_sets_no_disposition:
  "(isDir url = Inr True) = (url \<noteq> [] \<and> last url = CHR ''/'')
   \<and> (isDir (URL_Path r) = Inr True \<longrightarrow>
        handler v pf fs wr args r w out =
          Inr (fst (wr (fs w r) style), logRequest v args r out))"
  by (auto simp: isDir_def last_conv_nth handler_def Let_def split: if_splits)

theorem directory_request_sets_no_disposition_witness:
  "isDir (URL_Path (sample_request ''/images/'')) = Inr True
   \<and> handler Part_000 sample_platform sample_fs response_write sample_args
        (sample_request ''/images/'') empty_response []
      = Inr (\<lparr>respHeader = Map.empty, body = ''<pre>/images/</pre>'' @ style,
              status = 200, contentLength = -1, written = 19 + length style\<rparr>, [])"
proof -
  have h: "isDir (URL_Path (sample_request ''/images/'')) = Inr True"
    by (simp add: isDir_def sample_request_def)
  have s: "style \<noteq> []" by (simp add: style_def style_lines_def)
  from directory_request_sets_no_disposition
         [of "''/images/''" "sample_request ''/images/''" Part_000 sample_platform sample_fs
             response_write sample_args empty_response "[]"] h s
  show ?thesis
    by (simp add: sample_fs_def sample_request_def empty_response_def logRequest_def
          sample_args_def response_write_def bodyAllowedForStatus_def Let_def)
qed

text \<open>
  C1. Take a non-directory request path (non-empty, not ending in a slash), its final
  path segment (the text after the last slash) and that segment's extension (the
  suffix from its final dot, or nothing when there is no dot or when the suffix holds a
  path separator of the platform). When the MIME lookup maps the extension to a type
  of the classification table, the response handed to the file server carries the
  header Content-Disposition with the single value \<^verbatim>\<open>attachment; filename=\<close> followed
  by the segment as \<^verbatim>\<open>strconv.Quote\<close> renders it. When the lookup gives a type that is
  not in the table (an unlisted or unknown type), the response is handed over
  unchanged: no header is set. For a segment of printable ASCII characters without
  quote and backslash the rendering is the segment itself between double quotes.
\<close>

theorem media_request_forces_download:
  assumes "URL_Path r \<noteq> []" and "last (URL_Path r) \<noteq> CHR ''/''"
  shows "(let seg = final_segment (URL_Path r);
              e = final_dot_ext seg;
              ext = (if \<exists>c \<in> set e. isPathSeparator pf c then [] else e)
          in (typeByExtension pf ext \<in> set mediaTypes \<longrightarrow>
                handler v pf fs wr args r w out =
                  Inr (fs (w\<lparr>respHeader := (respHeader w)(''Content-Disposition'' \<mapsto>
                             [''attachment; filename='' @ Quote (isPrintTable pf) seg])\<rparr>) r,
                       logRequest v args r out))
           \<and> (typeByExtension pf ext \<notin> set mediaTypes \<longrightarrow>
                handler v pf fs wr args r w out = Inr (fs w r, logRequest v args r out))
           \<and> (list_all printable_plain seg \<longrightarrow>
                Quote (isPrintTable pf) seg = [CHR 0x22] @ seg @ [CHR 0x22]))"
  using assms
  by (simp add: handler_nonempty setDisposition_def Base_final_segment Let_def
        disposition_def Header_Set_def Quote_plain isMedia_def Ext_of_segment)

theorem media_request_forces_download_witness:
  "handler Part_000 sample_platform sample_fs response_write sample_args
        (sample_request ''/docs/report.pdf'') empty_response []
      = Inr (sample_fs
               (empty_response\<lparr>respHeader := [''Content-Disposition'' \<mapsto>
                  [''attachment; filename='' @ [CHR 0x22] @ ''report.pdf'' @ [CHR 0x22]]]\<rparr>)
               (sample_request ''/docs/report.pdf''), [])
   \<and> handler Part_000 sample_platform sample_fs response_write sample_args
        (sample_request ''/notes/readme.txt'') empty_response []
      = Inr (sample_fs empty_response (sample_request ''/notes/readme.txt''), [])
   \<and> handler Part_000 sample_platform sample_fs response_write sample_args
        (sample_request ''/notes/data.xyz'') empty_response []
      = Inr (sample_fs empty_response (sample_request ''/notes/data.xyz''), [])
   \<and> typeByExtension sample_platform ''.pdf'' = ''application/pdf''
   \<and> typeByExtension sample_platform ''.txt'' = ''text/plain; charset=utf-8''
   \<and> typeByExtension sample_platform ''.xyz'' = []"
proof -
  let ?rpdf = "sample_request ''/docs/report.pdf''"
  let ?rtxt = "sample_request ''/notes/readme.txt''"
  let ?rxyz = "sample_request ''/notes/data.xyz''"
  have u: "URL_Path ?rpdf = ''/docs/report.pdf''" "URL_Path ?rtxt = ''/notes/readme.txt''"
    "URL_Path ?rxyz = ''/notes/data.xyz''"
    by (simp_all add: sample_request_def)
  have seg: "final_segment ''/docs/report.pdf'' = ''report.pdf''"
    "final_segment ''/notes/readme.txt'' = ''readme.txt''"
    "final_segment ''/notes/data.xyz'' = ''data.xyz''"
    by (simp_all add: final_segment_def)
  have ext: "final_dot_ext ''report.pdf'' = ''.pdf''" "final_dot_ext ''readme.txt'' = ''.txt''"
    "final_dot_ext ''data.xyz'' = ''.xyz''"
    by (simp_all add: final_dot_ext_def)
  have t: "typeByExtension sample_platform ''.pdf'' = ''application/pdf''"
    "typeByExtension sample_platform ''.txt'' = ''text/plain; charset=utf-8''"
    "typeByExtension sample_platform ''.xyz'' = []"
    by (simp_all add: sample_platform_def sample_tbe_def)
  have m: "''application/pdf'' \<in> set mediaTypes"
    "''text/plain; charset=utf-8'' \<notin> set mediaTypes" "[] \<notin> set mediaTypes"
    by (simp_all add: mediaTypes_def)
  have sep: "isPathSeparator sample_platform = unix_sep" "isPrintTable sample_platform = (\<lambda>_. False)"
    by (simp_all add: sample_platform_def)
  have hpdf: "URL_Path ?rpdf \<noteq> []" "last (URL_Path ?rpdf) \<noteq> CHR ''/''"
    and htxt: "URL_Path ?rtxt \<noteq> []" "last (URL_Path ?rtxt) \<noteq> CHR ''/''"
    and hxyz: "URL_Path ?rxyz \<noteq> []" "last (URL_Path ?rxyz) \<noteq> CHR ''/''"
    by (simp_all add: u)
  have a: "handler Part_000 sample_platform sample_fs response_write sample_args ?rpdf
             empty_response []
           = Inr (sample_fs
               (empty_response\<lparr>respHeader := [''Content-Disposition'' \<mapsto>
                  [''attachment; filename='' @ [CHR 0x22] @ ''report.pdf'' @ [CHR 0x22]]]\<rparr>)
               ?rpdf, [])"
    using media_request_forces_download
            [OF hpdf, of sample_platform Part_000 sample_fs response_write sample_args
               empty_response "[]"]
    by (simp add: u seg ext t m sep unix_sep_def Let_def printable_plain_def plain_def
          logRequest_def sample_args_def empty_response_def)
  have b: "handler Part_000 sample_platform sample_fs response_write sample_args ?rtxt
             empty_response []
           = Inr (sample_fs empty_response ?rtxt, [])"
    using media_request_forces_download
            [OF htxt, of sample_platform Part_000 sample_fs response_write sample_args
               empty_response "[]"]
    by (simp add: u seg ext t m sep unix_sep_def Let_def logRequest_def sample_args_def)
  have c: "handler Part_000 sample_platform sample_fs response_write sample_args ?rxyz
             empty_response []
           = Inr (sample_fs empty_response ?rxyz, [])"
    using media_request_forces_download
            [OF hxyz, of sample_platform Part_000 sample_fs response_write sample_args
               empty_response "[]"]
    by (simp add: u seg ext t m sep unix_sep_def Let_def logRequest_def sample_args_def)
  from a b c t show ?thesis by simp
qed

subsection \<open>Reading the quoted name back\<close>

subsection \<open>Bit operations as arithmetic\<close>

lemma and_mask_mod: "(x::nat) AND mask n = x mod 2 ^ n"
  by (simp add: take_bit_eq_mask [symmetric] take_bit_eq_mod)

lemma and_mod:
  "(x::nat) AND 0x3F = x mod 64" "(x::nat) AND 0x1F = x mod 32"
  "(x::nat) AND 0x0F = x mod 16" "(x::nat) AND 0x07 = x mod 8"
  using and_mask_mod [of x 6] and_mask_mod [of x 5] and_mask_mod [of x 4] and_mask_mod [of x 3]
  by (simp_all add: mask_eq_exp_minus_1)

lemma or_add: "b < 2 ^ n \<Longrightarrow> push_bit n a OR b = push_bit n a + (b::nat)"
proof -
  assume b: "b < 2 ^ n"
  then have t: "take_bit n b = b" by (simp add: take_bit_eq_mod)
  have "\<not> bit (push_bit n a) i \<or> \<not> bit b i" for i
  proof (cases "i < n")
    case True
    then show ?thesis by (simp add: bit_push_bit_iff)
  next
    case False
    then have "\<not> bit (take_bit n b) i" by (simp add: bit_take_bit_iff)
    then show ?thesis by (simp add: t)
  qed
  then show ?thesis by (rule disjunctive_add [symmetric])
qed

lemma or_mult: "b < 2 ^ n \<Longrightarrow> a * 2 ^ n OR b = a * 2 ^ n + (b::nat)"
  using or_add [of b n a] by (simp add: push_bit_eq_mult)

lemma or_lead:
  "x < 64 \<Longrightarrow> (0x80::nat) OR x = 0x80 + x"
  "x < 32 \<Longrightarrow> (0xC0::nat) OR x = 0xC0 + x"
  "x < 16 \<Longrightarrow> (0xE0::nat) OR x = 0xE0 + x"
  "x < 8 \<Longrightarrow> (0xF0::nat) OR x = 0xF0 + x"
  using or_mult [of x 6 2] or_mult [of x 5 6] or_mult [of x 4 14] or_mult [of x 3 30]
  by simp_all

lemma cont_byte: "(0x80::nat) OR (byte x AND 0x3F) = 0x80 + x mod 64"
proof -
  have "byte x AND 0x3F = x mod 64"
    by (simp add: and_mod byte_def mod_mod_cancel)
  moreover have "x mod 64 < 64" by simp
  ultimately show ?thesis by (simp add: or_lead)
qed

lemma enc1: "r < 0x80 \<Longrightarrow> AppendRune r = [char_of r]"
  by (simp add: AppendRune_def byte_def)

lemma enc2:
  "0x80 \<le> r \<Longrightarrow> r < 0x800 \<Longrightarrow>
   AppendRune r = [char_of (0xC0 + r div 64), char_of (0x80 + r mod 64)]"
proof -
  assume r: "0x80 \<le> r" "r < 0x800"
  then have d: "r div 64 < 32" by arith
  then have "byte (drop_bit 6 r) = r div 64" by (simp add: byte_def drop_bit_eq_div)
  with d have "(0xC0::nat) OR byte (drop_bit 6 r) = 0xC0 + r div 64" by (simp add: or_lead)
  with r show ?thesis by (simp add: AppendRune_def cont_byte)
qed

lemma enc3:
  "0x800 \<le> r \<Longrightarrow> r < 0x10000 \<Longrightarrow> \<not> (0xD800 \<le> r \<and> r \<le> 0xDFFF) \<Longrightarrow>
   AppendRune r =
     [char_of (0xE0 + r div 4096), char_of (0x80 + r div 64 mod 64), char_of (0x80 + r mod 64)]"
proof -
  assume r: "0x800 \<le> r" "r < 0x10000" "\<not> (0xD800 \<le> r \<and> r \<le> 0xDFFF)"
  then have d: "r div 4096 < 16" by arith
  then have "byte (drop_bit 12 r) = r div 4096" by (simp add: byte_def drop_bit_eq_div)
  with d have l: "(0xE0::nat) OR byte (drop_bit 12 r) = 0xE0 + r div 4096" by (simp add: or_lead)
  have m: "(0x80::nat) OR (byte (drop_bit 6 r) AND 0x3F) = 0x80 + r div 64 mod 64"
    by (simp add: cont_byte drop_bit_eq_div)
  from r have c: "(r > MaxRune \<or> (0xD800 \<le> r \<and> r \<le> 0xDFFF)) = False"
    by (auto simp: MaxRune_def)
  from r(1,2) l m show ?thesis unfolding AppendRune_def c by (simp add: cont_byte)
qed

lemma enc4:
  "0x10000 \<le> r \<Longrightarrow> r \<le> 0x10FFFF \<Longrightarrow>
   AppendRune r =
     [char_of (0xF0 + r div 262144), char_of (0x80 + r div 4096 mod 64),
      char_of (0x80 + r div 64 mod 64), char_of (0x80 + r mod 64)]"
proof -
  assume r: "0x10000 \<le> r" "r \<le> 0x10FFFF"
  then have d: "r div 262144 < 8" by arith
  then have "byte (drop_bit 18 r) = r div 262144" by (simp add: byte_def drop_bit_eq_div)
  with d have l: "(0xF0::nat) OR byte (drop_bit 18 r) = 0xF0 + r div 262144"
    by (simp add: or_lead)
  have m: "(0x80::nat) OR (byte (drop_bit 12 r) AND 0x3F) = 0x80 + r div 4096 mod 64"
    "(0x80::nat) OR (byte (drop_bit 6 r) AND 0x3F) = 0x80 + r div 64 mod 64"
    by (simp_all add: cont_byte drop_bit_eq_div)
  from r have c: "(r > MaxRune \<or> (0xD800 \<le> r \<and> r \<le> 0xDFFF)) = False"
    by (auto simp: MaxRune_def)
  from r l m show ?thesis unfolding AppendRune_def c by (simp add: cont_byte)
qed

lemma AppendRune_utf8_bytes: "ValidRune r \<Longrightarrow> AppendRune r = utf8_bytes r"
proof -
  assume v: "ValidRune r"
  then have v': "r < 0xD800 \<or> (0xDFFF < r \<and> r \<le> 0x10FFFF)"
    by (auto simp: ValidRune_def MaxRune_def split: if_splits)
  consider "r < 0x80" | "0x80 \<le> r" "r < 0x800" | "0x800 \<le> r" "r < 0x10000" | "0x10000 \<le> r"
    by linarith
  then show ?thesis
  proof cases
    case 1 then show ?thesis by (simp add: enc1 utf8_bytes_def)
  next
    case 2 then show ?thesis by (simp add: enc2 utf8_bytes_def)
  next
    case 3
    with v' have "\<not> (0xD800 \<le> r \<and> r \<le> 0xDFFF)" by auto
    with 3 show ?thesis by (simp add: enc3 utf8_bytes_def)
  next
    case 4
    with v' have "r \<le> 0x10FFFF" by auto
    with 4 show ?thesis by (simp add: enc4 utf8_bytes_def)
  qed
qed

lemma or3:
  "b < 64 \<Longrightarrow> c < 64 \<Longrightarrow>
   push_bit 12 a OR push_bit 6 b OR c = a * 4096 + b * 64 + (c::nat)"
proof -
  assume b: "b < 64" and c: "c < 64"
  then have i: "push_bit 6 b OR c = b * 64 + c"
    using or_add [of c 6 b] by (simp add: push_bit_eq_mult)
  from b c have "b * 64 + c < 2 ^ 12" by simp
  then have "push_bit 12 a OR (b * 64 + c) = a * 4096 + (b * 64 + c)"
    using or_add [of "b * 64 + c" 12 a] by (simp add: push_bit_eq_mult)
  with i show ?thesis by simp
qed

lemma or4:
  "b < 64 \<Longrightarrow> c < 64 \<Longrightarrow> d < 64 \<Longrightarrow>
   push_bit 18 a OR push_bit 12 b OR push_bit 6 c OR d
     = a * 262144 + b * 4096 + c * 64 + (d::nat)"
proof -
  assume b: "b < 64" and c: "c < 64" and d: "d < 64"
  have i: "push_bit 12 b OR push_bit 6 c OR d = b * 4096 + c * 64 + d"
    using c d by (rule or3)
  from b c d have "b * 4096 + c * 64 + d < 2 ^ 18" by simp
  then have "push_bit 18 a OR (b * 4096 + c * 64 + d) = a * 262144 + (b * 4096 + c * 64 + d)"
    using or_add [of "b * 4096 + c * 64 + d" 18 a] by (simp add: push_bit_eq_mult)
  with i show ?thesis by simp
qed

lemma or2:
  "b < 64 \<Longrightarrow> push_bit 6 a OR b = a * 64 + (b::nat)"
  using or_add [of b 6 a] by (simp add: push_bit_eq_mult)

lemma take2: "2 \<le> length s \<Longrightarrow> take 2 s = [s ! 0, s ! 1]"
  by (cases s; cases "tl s") auto

lemma take3: "3 \<le> length s \<Longrightarrow> take 3 s = [s ! 0, s ! 1, s ! 2]"
  by (cases s; cases "tl s"; cases "tl (tl s)") auto

lemma take4: "4 \<le> length s \<Longrightarrow> take 4 s = [s ! 0, s ! 1, s ! 2, s ! 3]"
  by (cases s; cases "tl s"; cases "tl (tl s)"; cases "tl (tl (tl s))") auto

lemma char_of_eq: "n = (of_char c :: nat) \<Longrightarrow> char_of n = c"
  by simp

text \<open>Arithmetic of the encodings.\<close>

lemma divmod_pack: "x < k \<Longrightarrow> (a * k + x) div k = a \<and> (a * k + x) mod k = (x::nat)"
  by simp

lemma pack2:
  "b < 64 \<Longrightarrow> (a * 64 + b) div 64 = (a::nat) \<and> (a * 64 + b) mod 64 = b"
  by (rule divmod_pack)

lemma pack3:
  "b < 64 \<Longrightarrow> c < 64 \<Longrightarrow>
   (a * 4096 + b * 64 + c) div 4096 = (a::nat)
   \<and> (a * 4096 + b * 64 + c) div 64 mod 64 = b
   \<and> (a * 4096 + b * 64 + c) mod 64 = c"
proof -
  assume b: "b < 64" and c: "c < 64"
  let ?r = "a * 4096 + b * 64 + c"
  have x: "b * 64 + c < 4096" using b c by simp
  have e1: "?r = a * 4096 + (b * 64 + c)" by simp
  have e2: "?r = (a * 64 + b) * 64 + c" by simp
  have 1: "?r div 4096 = a" unfolding e1 using divmod_pack [OF x] by blast
  have 2: "?r div 64 = a * 64 + b" and 4: "?r mod 64 = c"
    unfolding e2 using divmod_pack [OF c] by blast+
  have 3: "(a * 64 + b) mod 64 = b" using divmod_pack [OF b] by blast
  from 1 2 3 4 show ?thesis by (simp only:) 
qed

lemma pack4:
  "b < 64 \<Longrightarrow> c < 64 \<Longrightarrow> d < 64 \<Longrightarrow>
   (a * 262144 + b * 4096 + c * 64 + d) div 262144 = (a::nat)
   \<and> (a * 262144 + b * 4096 + c * 64 + d) div 4096 mod 64 = b
   \<and> (a * 262144 + b * 4096 + c * 64 + d) div 64 mod 64 = c
   \<and> (a * 262144 + b * 4096 + c * 64 + d) mod 64 = d"
proof -
  assume b: "b < 64" and c: "c < 64" and d: "d < 64"
  let ?r = "a * 262144 + b * 4096 + c * 64 + d"
  have x: "b * 4096 + c * 64 + d < 262144" using b c d by simp
  have y: "c * 64 + d < 4096" using c d by simp
  have e1: "?r = a * 262144 + (b * 4096 + c * 64 + d)" by simp
  have e2: "?r = (a * 64 + b) * 4096 + (c * 64 + d)" by simp
  have e3: "?r = ((a * 64 + b) * 64 + c) * 64 + d" by simp
  have 1: "?r div 262144 = a" unfolding e1 using divmod_pack [OF x] by blast
  have 2: "?r div 4096 = a * 64 + b" unfolding e2 using divmod_pack [OF y] by blast
  have 3: "(a * 64 + b) mod 64 = b" using divmod_pack [OF b] by blast
  have 4: "?r div 64 = (a * 64 + b) * 64 + c" and 6: "?r mod 64 = d"
    unfolding e3 using divmod_pack [OF d] by blast+
  have 5: "((a * 64 + b) * 64 + c) mod 64 = c" using divmod_pack [OF c] by blast
  from 1 2 3 4 5 6 show ?thesis by (simp only:)
qed

lemma mod_lead: "k * m \<le> x \<Longrightarrow> x < k * m + m \<Longrightarrow> x mod m = x - k * (m::nat)"
proof -
  assume a: "k * m \<le> x" and b: "x < k * m + m"
  then have "x - k * m < m" by simp
  then have "(k * m + (x - k * m)) mod m = x - k * m" using divmod_pack by blast
  with a show ?thesis by simp
qed

lemma cont_mod: "0x80 \<le> b \<Longrightarrow> b \<le> 0xBF \<Longrightarrow> b mod 64 = b - (128::nat)"
  using mod_lead [of 2 64 b] by simp

lemma lead_mod:
  "0xC0 \<le> b \<Longrightarrow> b < 0xE0 \<Longrightarrow> b mod 32 = b - (192::nat)"
  "0xE0 \<le> b \<Longrightarrow> b < 0xF0 \<Longrightarrow> b mod 16 = b - (224::nat)"
  "0xF0 \<le> b \<Longrightarrow> b < 0xF8 \<Longrightarrow> b mod 8 = b - (240::nat)"
  using mod_lead [of 6 32 b] mod_lead [of 14 16 b] mod_lead [of 30 8 b] by simp_all

lemma enc_pack2:
  "2 \<le> a \<Longrightarrow> a < 32 \<Longrightarrow> b < 64 \<Longrightarrow>
   utf8_bytes (a * 64 + b) = [char_of (0xC0 + a), char_of (0x80 + b)]
   \<and> 0x80 \<le> a * 64 + b \<and> a * 64 + b < 0x800"
proof -
  assume a: "2 \<le> a" "a < 32" and b: "b < 64"
  have lo: "0x80 \<le> a * 64 + b" using a by simp
  have hi: "a * 64 + b < 0x800" using a b by simp
  from lo hi pack2 [OF b, of a] show ?thesis by (simp add: utf8_bytes_def)
qed

lemma enc_pack3:
  "a < 16 \<Longrightarrow> b < 64 \<Longrightarrow> c < 64 \<Longrightarrow> 0x800 \<le> a * 4096 + b * 64 + c \<Longrightarrow>
   utf8_bytes (a * 4096 + b * 64 + c) = [char_of (0xE0 + a), char_of (0x80 + b), char_of (0x80 + c)]"
proof -
  assume a: "a < 16" and b: "b < 64" and c: "c < 64" and lo: "0x800 \<le> a * 4096 + b * 64 + c"
  have hi: "a * 4096 + b * 64 + c < 0x10000" using a b c by simp
  from lo hi pack3 [OF b c, of a] show ?thesis by (simp add: utf8_bytes_def)
qed

lemma enc_pack4:
  "a < 8 \<Longrightarrow> b < 64 \<Longrightarrow> c < 64 \<Longrightarrow> d < 64 \<Longrightarrow>
   0x10000 \<le> a * 262144 + b * 4096 + c * 64 + d \<Longrightarrow>
   utf8_bytes (a * 262144 + b * 4096 + c * 64 + d)
     = [char_of (0xF0 + a), char_of (0x80 + b), char_of (0x80 + c), char_of (0x80 + d)]"
proof -
  assume a: "a < 8" and b: "b < 64" and c: "c < 64" and d: "d < 64"
    and lo: "0x10000 \<le> a * 262144 + b * 4096 + c * 64 + d"
  from lo pack4 [OF b c d, of a] show ?thesis by (simp add: utf8_bytes_def)
qed

text \<open>The decoder on each class of lead bytes.\<close>

lemma decode_invalid_lead:
  "s \<noteq> [] \<Longrightarrow> (0x80 \<le> (of_char (s ! 0) :: nat) \<and> (of_char (s ! 0) :: nat) < 0xC2)
      \<or> 0xF4 < (of_char (s ! 0) :: nat) \<Longrightarrow>
   DecodeRuneInString s = (RuneError, 1)"
proof -
  assume s: "s \<noteq> []"
    and b: "(0x80 \<le> (of_char (s ! 0) :: nat) \<and> (of_char (s ! 0) :: nat) < 0xC2)
      \<or> 0xF4 < (of_char (s ! 0) :: nat)"
  from b have f: "utf8_first (of_char (s ! 0)) = 0xF1" by (auto simp: utf8_first_def)
  have n: "\<not> length s < 1" using s by (cases s) auto
  show ?thesis
    unfolding DecodeRuneInString_def Let_def f using n by simp
qed

lemma or2': "push_bit 6 x OR (y mod 64) = x * 64 + (y mod 64 :: nat)"
  by (rule or2) simp

lemma or3':
  "push_bit 12 x OR push_bit 6 (y mod 64) OR (z mod 64) = x * 4096 + (y mod 64) * 64 + (z mod 64 :: nat)"
  by (rule or3) simp_all

lemma or4':
  "push_bit 18 x OR push_bit 12 (y mod 64) OR push_bit 6 (z mod 64) OR (u mod 64)
     = x * 262144 + (y mod 64) * 4096 + (z mod 64) * 64 + (u mod 64 :: nat)"
  by (rule or4) simp_all

lemma sz_accept:
  "(0x02::nat) mod 8 = 2" "(0x13::nat) mod 8 = 3" "(0x03::nat) mod 8 = 3" "(0x23::nat) mod 8 = 3"
  "(0x34::nat) mod 8 = 4" "(0x04::nat) mod 8 = 4" "(0x44::nat) mod 8 = 4"
  "acceptRanges (drop_bit 4 0x02) = (0x80, 0xBF)" "acceptRanges (drop_bit 4 0x13) = (0xA0, 0xBF)"
  "acceptRanges (drop_bit 4 0x03) = (0x80, 0xBF)" "acceptRanges (drop_bit 4 0x23) = (0x80, 0x9F)"
  "acceptRanges (drop_bit 4 0x34) = (0x90, 0xBF)" "acceptRanges (drop_bit 4 0x04) = (0x80, 0xBF)"
  "acceptRanges (drop_bit 4 0x44) = (0x80, 0x8F)"
  by (simp_all add: acceptRanges_def drop_bit_eq_div)

lemma decode2:
  assumes "s \<noteq> []" "0xC2 \<le> (of_char (s ! 0) :: nat)" "(of_char (s ! 0) :: nat) < 0xE0"
  shows "DecodeRuneInString s =
     (if length s < 2 then (RuneError, 1)
      else if (of_char (s ! 1) :: nat) < 0x80 \<or> 0xBF < (of_char (s ! 1) :: nat) then (RuneError, 1)
      else ((of_char (s ! 0) mod 32) * 64 + of_char (s ! 1) mod 64, 2))"
proof -
  from assms have f: "utf8_first (of_char (s ! 0)) = 0x02" by (simp add: utf8_first_def)
  have n: "\<not> length s < 1" using assms(1) by (cases s) auto
  show ?thesis
    unfolding DecodeRuneInString_def Let_def f and_mod or2' sz_accept
    using n by simp
qed

lemma decode3:
  assumes "s \<noteq> []" "0xE0 \<le> (of_char (s ! 0) :: nat)" "(of_char (s ! 0) :: nat) < 0xF0"
  shows "DecodeRuneInString s =
     (if length s < 3 then (RuneError, 1)
      else if (of_char (s ! 1) :: nat) < (if (of_char (s ! 0) :: nat) = 0xE0 then 0xA0 else 0x80)
              \<or> (if (of_char (s ! 0) :: nat) = 0xED then 0x9F else 0xBF) < (of_char (s ! 1) :: nat)
        then (RuneError, 1)
      else if (of_char (s ! 2) :: nat) < 0x80 \<or> 0xBF < (of_char (s ! 2) :: nat) then (RuneError, 1)
      else ((of_char (s ! 0) mod 16) * 4096 + (of_char (s ! 1) mod 64) * 64
              + of_char (s ! 2) mod 64, 3))"
proof -
  have n: "\<not> length s < 1" using assms(1) by (cases s) auto
  consider (e0) "(of_char (s ! 0) :: nat) = 0xE0"
    | (ed) "(of_char (s ! 0) :: nat) = 0xED"
    | (o) "(of_char (s ! 0) :: nat) \<noteq> 0xE0" "(of_char (s ! 0) :: nat) \<noteq> 0xED"
    by blast
  then show ?thesis
  proof cases
    case e0
    then have f: "utf8_first (of_char (s ! 0)) = 0x13" by (simp add: utf8_first_def)
    from e0 have c: "(if (of_char (s ! 0) :: nat) = 0xE0 then 0xA0 else 0x80) = (0xA0::nat)"
      "(if (of_char (s ! 0) :: nat) = 0xED then 0x9F else 0xBF) = (0xBF::nat)" by simp_all
    show ?thesis
      unfolding DecodeRuneInString_def Let_def f and_mod or3' sz_accept c
      using n by simp
  next
    case ed
    then have f: "utf8_first (of_char (s ! 0)) = 0x23" by (simp add: utf8_first_def)
    from ed have c: "(if (of_char (s ! 0) :: nat) = 0xE0 then 0xA0 else 0x80) = (0x80::nat)"
      "(if (of_char (s ! 0) :: nat) = 0xED then 0x9F else 0xBF) = (0x9F::nat)" by simp_all
    show ?thesis
      unfolding DecodeRuneInString_def Let_def f and_mod or3' sz_accept c
      using n by simp
  next
    case o
    with assms have f: "utf8_first (of_char (s ! 0)) = 0x03" by (simp add: utf8_first_def)
    from o have c: "(if (of_char (s ! 0) :: nat) = 0xE0 then 0xA0 else 0x80) = (0x80::nat)"
      "(if (of_char (s ! 0) :: nat) = 0xED then 0x9F else 0xBF) = (0xBF::nat)" by simp_all
    show ?thesis
      unfolding DecodeRuneInString_def Let_def f and_mod or3' sz_accept c
      using n by simp
  qed
qed

lemma decode4:
  assumes "s \<noteq> []" "0xF0 \<le> (of_char (s ! 0) :: nat)" "(of_char (s ! 0) :: nat) \<le> 0xF4"
  shows "DecodeRuneInString s =
     (if length s < 4 then (RuneError, 1)
      else if (of_char (s ! 1) :: nat) < (if (of_char (s ! 0) :: nat) = 0xF0 then 0x90 else 0x80)
              \<or> (if (of_char (s ! 0) :: nat) = 0xF4 then 0x8F else 0xBF) < (of_char (s ! 1) :: nat)
        then (RuneError, 1)
      else if (of_char (s ! 2) :: nat) < 0x80 \<or> 0xBF < (of_char (s ! 2) :: nat) then (RuneError, 1)
      else if (of_char (s ! 3) :: nat) < 0x80 \<or> 0xBF < (of_char (s ! 3) :: nat) then (RuneError, 1)
      else ((of_char (s ! 0) mod 8) * 262144 + (of_char (s ! 1) mod 64) * 4096
              + (of_char (s ! 2) mod 64) * 64 + of_char (s ! 3) mod 64, 4))"
proof -
  have n: "\<not> length s < 1" using assms(1) by (cases s) auto
  consider (f0) "(of_char (s ! 0) :: nat) = 0xF0"
    | (f4) "(of_char (s ! 0) :: nat) = 0xF4"
    | (o) "(of_char (s ! 0) :: nat) \<noteq> 0xF0" "(of_char (s ! 0) :: nat) \<noteq> 0xF4"
    by blast
  then show ?thesis
  proof cases
    case f0
    then have f: "utf8_first (of_char (s ! 0)) = 0x34" by (simp add: utf8_first_def)
    from f0 have c: "(if (of_char (s ! 0) :: nat) = 0xF0 then 0x90 else 0x80) = (0x90::nat)"
      "(if (of_char (s ! 0) :: nat) = 0xF4 then 0x8F else 0xBF) = (0xBF::nat)" by simp_all
    show ?thesis
      unfolding DecodeRuneInString_def Let_def f and_mod or4' sz_accept c
      using n by simp
  next
    case f4
    then have f: "utf8_first (of_char (s ! 0)) = 0x44" by (simp add: utf8_first_def)
    from f4 have c: "(if (of_char (s ! 0) :: nat) = 0xF0 then 0x90 else 0x80) = (0x80::nat)"
      "(if (of_char (s ! 0) :: nat) = 0xF4 then 0x8F else 0xBF) = (0x8F::nat)" by simp_all
    show ?thesis
      unfolding DecodeRuneInString_def Let_def f and_mod or4' sz_accept c
      using n by simp
  next
    case o
    with assms have f: "utf8_first (of_char (s ! 0)) = 0x04" by (simp add: utf8_first_def)
    from o have c: "(if (of_char (s ! 0) :: nat) = 0xF0 then 0x90 else 0x80) = (0x80::nat)"
      "(if (of_char (s ! 0) :: nat) = 0xF4 then 0x8F else 0xBF) = (0xBF::nat)" by simp_all
    show ?thesis
      unfolding DecodeRuneInString_def Let_def f and_mod or4' sz_accept c
      using n by simp
  qed
qed

lemma valid_below: "r < 0xD800 \<Longrightarrow> ValidRune r"
  by (simp add: ValidRune_def)

lemma valid_above: "0xDFFF < r \<Longrightarrow> r \<le> 0x10FFFF \<Longrightarrow> ValidRune r"
  by (simp add: ValidRune_def MaxRune_def)

lemma multibyte2:
  assumes s: "s \<noteq> []" and b0: "0xC2 \<le> (of_char (s ! 0) :: nat)" "(of_char (s ! 0) :: nat) < 0xE0"
    and d: "DecodeRuneInString s = (r, w)" and ne: "\<not> (w = 1 \<and> r = RuneError)"
  shows "2 \<le> w \<and> w \<le> length s \<and> 0x80 \<le> r \<and> ValidRune r \<and> utf8_bytes r = take w s"
proof -
  define a where "a = (of_char (s ! 0) :: nat) - 192"
  define b where "b = (of_char (s ! 1) :: nat) - 128"
  from d ne have l: "2 \<le> length s"
    and b1: "0x80 \<le> (of_char (s ! 1) :: nat)" "(of_char (s ! 1) :: nat) \<le> 0xBF"
    and r: "r = (of_char (s ! 0) mod 32) * 64 + of_char (s ! 1) mod 64" and w: "w = 2"
    unfolding decode2 [OF s b0] by (auto split: if_splits)
  have ma: "(of_char (s ! 0) :: nat) mod 32 = a" unfolding a_def using b0 by (simp add: lead_mod)
  have mb: "(of_char (s ! 1) :: nat) mod 64 = b" unfolding b_def using b1 by (simp add: cont_mod)
  have ea: "0xC0 + a = (of_char (s ! 0) :: nat)" unfolding a_def using b0 by simp
  have eb: "0x80 + b = (of_char (s ! 1) :: nat)" unfolding b_def using b1 by simp
  have ra: "2 \<le> a" "a < 32" unfolding a_def using b0 by simp_all
  have rb: "b < 64" unfolding b_def using b1 by simp
  have rr: "r = a * 64 + b" unfolding r ma mb ..
  from enc_pack2 [OF ra rb] have e: "utf8_bytes r = [char_of (0xC0 + a), char_of (0x80 + b)]"
    and lo: "0x80 \<le> r" and hi: "r < 0x800" unfolding rr by blast+
  have "utf8_bytes r = [s ! 0, s ! 1]" unfolding e ea eb by simp
  then have t: "utf8_bytes r = take w s" unfolding w using take2 [OF l] by simp
  from hi have v: "ValidRune r" by (intro valid_below) simp
  from w l lo v t show ?thesis by simp
qed

lemma multibyte3:
  assumes s: "s \<noteq> []" and b0: "0xE0 \<le> (of_char (s ! 0) :: nat)" "(of_char (s ! 0) :: nat) < 0xF0"
    and d: "DecodeRuneInString s = (r, w)" and ne: "\<not> (w = 1 \<and> r = RuneError)"
  shows "2 \<le> w \<and> w \<le> length s \<and> 0x80 \<le> r \<and> ValidRune r \<and> utf8_bytes r = take w s"
proof -
  define a where "a = (of_char (s ! 0) :: nat) - 224"
  define b where "b = (of_char (s ! 1) :: nat) - 128"
  define c where "c = (of_char (s ! 2) :: nat) - 128"
  from d ne have l: "3 \<le> length s"
    and b1: "(if (of_char (s ! 0) :: nat) = 0xE0 then 0xA0 else 0x80) \<le> (of_char (s ! 1) :: nat)"
       "(of_char (s ! 1) :: nat) \<le> (if (of_char (s ! 0) :: nat) = 0xED then 0x9F else 0xBF)"
    and b2: "0x80 \<le> (of_char (s ! 2) :: nat)" "(of_char (s ! 2) :: nat) \<le> 0xBF"
    and r: "r = (of_char (s ! 0) mod 16) * 4096 + (of_char (s ! 1) mod 64) * 64
              + of_char (s ! 2) mod 64" and w: "w = 3"
    unfolding decode3 [OF s b0] by (auto split: if_splits)
  from b1 have b1': "0x80 \<le> (of_char (s ! 1) :: nat)" "(of_char (s ! 1) :: nat) \<le> 0xBF"
    by (auto split: if_splits)
  have ma: "(of_char (s ! 0) :: nat) mod 16 = a" unfolding a_def using b0 by (simp add: lead_mod)
  have mb: "(of_char (s ! 1) :: nat) mod 64 = b" unfolding b_def using b1' by (simp add: cont_mod)
  have mc: "(of_char (s ! 2) :: nat) mod 64 = c" unfolding c_def using b2 by (simp add: cont_mod)
  have ea: "0xE0 + a = (of_char (s ! 0) :: nat)" unfolding a_def using b0 by simp
  have eb: "0x80 + b = (of_char (s ! 1) :: nat)" unfolding b_def using b1' by simp
  have ec: "0x80 + c = (of_char (s ! 2) :: nat)" unfolding c_def using b2 by simp
  have ra: "a < 16" unfolding a_def using b0 by simp
  have rb: "b < 64" unfolding b_def using b1' by simp
  have rc: "c < 64" unfolding c_def using b2 by simp
  have rr: "r = a * 4096 + b * 64 + c" unfolding r ma mb mc ..
  have lo: "0x800 \<le> a * 4096 + b * 64 + c"
  proof (cases "a = 0")
    case True
    then have "(of_char (s ! 0) :: nat) = 0xE0" using ea by simp
    with b1 eb have "32 \<le> b" by simp
    then show ?thesis by simp
  next
    case False
    then have "1 \<le> a" by simp
    then show ?thesis by simp
  qed
  from enc_pack3 [OF ra rb rc lo]
  have "utf8_bytes r = [char_of (0xE0 + a), char_of (0x80 + b), char_of (0x80 + c)]"
    unfolding rr .
  then have "utf8_bytes r = [s ! 0, s ! 1, s ! 2]" unfolding ea eb ec by simp
  then have t: "utf8_bytes r = take w s" unfolding w using take3 [OF l] by simp
  have v: "ValidRune r"
  proof -
    consider "a \<le> 12" | "a = 13" | "14 \<le> a" by linarith
    then show ?thesis
    proof cases
      case 1
      with rb rc have "r < 0xD800" unfolding rr by simp
      then show ?thesis by (rule valid_below)
    next
      case 2
      then have "(of_char (s ! 0) :: nat) = 0xED" using ea by simp
      with b1 eb have "b \<le> 31" by simp
      with 2 rc have "r < 0xD800" unfolding rr by simp
      then show ?thesis by (rule valid_below)
    next
      case 3
      with ra rb rc have "0xDFFF < r" "r \<le> 0x10FFFF" unfolding rr by simp_all
      then show ?thesis by (rule valid_above)
    qed
  qed
  from lo have lo': "0x80 \<le> r" unfolding rr by simp
  from w l lo' v t show ?thesis by simp
qed

lemma multibyte4:
  assumes s: "s \<noteq> []" and b0: "0xF0 \<le> (of_char (s ! 0) :: nat)" "(of_char (s ! 0) :: nat) \<le> 0xF4"
    and d: "DecodeRuneInString s = (r, w)" and ne: "\<not> (w = 1 \<and> r = RuneError)"
  shows "2 \<le> w \<and> w \<le> length s \<and> 0x80 \<le> r \<and> ValidRune r \<and> utf8_bytes r = take w s"
proof -
  define a where "a = (of_char (s ! 0) :: nat) - 240"
  define b where "b = (of_char (s ! 1) :: nat) - 128"
  define c where "c = (of_char (s ! 2) :: nat) - 128"
  define e where "e = (of_char (s ! 3) :: nat) - 128"
  from d ne have l: "4 \<le> length s"
    and b1: "(if (of_char (s ! 0) :: nat) = 0xF0 then 0x90 else 0x80) \<le> (of_char (s ! 1) :: nat)"
       "(of_char (s ! 1) :: nat) \<le> (if (of_char (s ! 0) :: nat) = 0xF4 then 0x8F else 0xBF)"
    and b2: "0x80 \<le> (of_char (s ! 2) :: nat)" "(of_char (s ! 2) :: nat) \<le> 0xBF"
    and b3: "0x80 \<le> (of_char (s ! 3) :: nat)" "(of_char (s ! 3) :: nat) \<le> 0xBF"
    and r: "r = (of_char (s ! 0) mod 8) * 262144 + (of_char (s ! 1) mod 64) * 4096
              + (of_char (s ! 2) mod 64) * 64 + of_char (s ! 3) mod 64" and w: "w = 4"
    unfolding decode4 [OF s b0] by (auto split: if_splits)
  from b1 have b1': "0x80 \<le> (of_char (s ! 1) :: nat)" "(of_char (s ! 1) :: nat) \<le> 0xBF"
    by (auto split: if_splits)
  have ma: "(of_char (s ! 0) :: nat) mod 8 = a" unfolding a_def using b0 by (simp add: lead_mod)
  have mb: "(of_char (s ! 1) :: nat) mod 64 = b" unfolding b_def using b1' by (simp add: cont_mod)
  have mc: "(of_char (s ! 2) :: nat) mod 64 = c" unfolding c_def using b2 by (simp add: cont_mod)
  have me: "(of_char (s ! 3) :: nat) mod 64 = e" unfolding e_def using b3 by (simp add: cont_mod)
  have ea: "0xF0 + a = (of_char (s ! 0) :: nat)" unfolding a_def using b0 by simp
  have eb: "0x80 + b = (of_char (s ! 1) :: nat)" unfolding b_def using b1' by simp
  have ec: "0x80 + c = (of_char (s ! 2) :: nat)" unfolding c_def using b2 by simp
  have ee: "0x80 + e = (of_char (s ! 3) :: nat)" unfolding e_def using b3 by simp
  have ra: "a \<le> 4" unfolding a_def using b0 by simp
  have rb: "b < 64" unfolding b_def using b1' by simp
  have rc: "c < 64" unfolding c_def using b2 by simp
  have re: "e < 64" unfolding e_def using b3 by simp
  have rr: "r = a * 262144 + b * 4096 + c * 64 + e" unfolding r ma mb mc me ..
  have lo: "0x10000 \<le> a * 262144 + b * 4096 + c * 64 + e"
  proof (cases "a = 0")
    case True
    then have "(of_char (s ! 0) :: nat) = 0xF0" using ea by simp
    with b1 eb have "16 \<le> b" by simp
    then show ?thesis by simp
  next
    case False
    then have "1 \<le> a" by simp
    then show ?thesis by simp
  qed
  from ra have ra': "a < 8" by simp
  from enc_pack4 [OF ra' rb rc re lo]
  have "utf8_bytes r
          = [char_of (0xF0 + a), char_of (0x80 + b), char_of (0x80 + c), char_of (0x80 + e)]"
    unfolding rr .
  then have "utf8_bytes r = [s ! 0, s ! 1, s ! 2, s ! 3]" unfolding ea eb ec ee by simp
  then have t: "utf8_bytes r = take w s" unfolding w using take4 [OF l] by simp
  have hi: "r \<le> 0x10FFFF"
  proof (cases "a = 4")
    case True
    then have "(of_char (s ! 0) :: nat) = 0xF4" using ea by simp
    with b1 eb have "b \<le> 15" by simp
    with True rc re show ?thesis unfolding rr by simp
  next
    case False
    with ra have "a \<le> 3" by simp
    with rb rc re show ?thesis unfolding rr by simp
  qed
  from lo have "0xDFFF < r" unfolding rr by simp
  then have v: "ValidRune r" using hi by (rule valid_above)
  from lo have lo': "0x80 \<le> r" unfolding rr by simp
  from w l lo' v t show ?thesis by simp
qed

lemma nextRune_cases:
  assumes s: "s \<noteq> []" and n: "nextRune s = (r, w)"
  shows "((of_char (s ! 0) :: nat) < 0x80 \<and> r = of_char (s ! 0) \<and> w = 1)
       \<or> (0x80 \<le> (of_char (s ! 0) :: nat) \<and> r = RuneError \<and> w = 1)
       \<or> (2 \<le> w \<and> w \<le> length s \<and> 0x80 \<le> r \<and> ValidRune r \<and> utf8_bytes r = take w s)"
proof (cases "(of_char (s ! 0) :: nat) < 0x80")
  case True
  with n show ?thesis by (simp add: nextRune_def RuneSelf_def Let_def)
next
  case False
  with n have d: "DecodeRuneInString s = (r, w)"
    by (simp add: nextRune_def RuneSelf_def Let_def)
  show ?thesis
  proof (cases "w = 1 \<and> r = RuneError")
    case True
    with False show ?thesis by simp
  next
    case ne: False
    consider (i) "(of_char (s ! 0) :: nat) < 0xC2 \<or> 0xF4 < (of_char (s ! 0) :: nat)"
      | (two) "0xC2 \<le> (of_char (s ! 0) :: nat)" "(of_char (s ! 0) :: nat) < 0xE0"
      | (three) "0xE0 \<le> (of_char (s ! 0) :: nat)" "(of_char (s ! 0) :: nat) < 0xF0"
      | (four) "0xF0 \<le> (of_char (s ! 0) :: nat)" "(of_char (s ! 0) :: nat) \<le> 0xF4"
      by linarith
    then show ?thesis
    proof cases
      case i
      with False have "DecodeRuneInString s = (RuneError, 1)"
        using decode_invalid_lead [OF s] by auto
      with d ne show ?thesis by simp
    next
      case two
      from multibyte2 [OF s two d ne] show ?thesis by blast
    next
      case three
      from multibyte3 [OF s three d ne] show ?thesis by blast
    next
      case four
      from multibyte4 [OF s four d ne] show ?thesis by blast
    qed
  qed
qed

lemmas unq = unquote_body.simps(2)

lemma unq_plain1: "plain c \<Longrightarrow> unquote_body (c # R) = map_option ((#) c) (unquote_body R)"
  by (simp add: unq plain_def)

lemma unq_plain:
  "list_all plain xs \<Longrightarrow> unquote_body (xs @ R) = map_option ((@) xs) (unquote_body R)"
proof (induction xs)
  case Nil
  show ?case by (simp add: option.map_ident)
next
  case (Cons x xs)
  then show ?case
    by (simp add: unq_plain1 option.map_comp comp_def)
qed

lemma unq_simple:
  "simple_escape e = Some b \<Longrightarrow> e \<noteq> CHR ''x'' \<Longrightarrow> e \<noteq> CHR ''u'' \<Longrightarrow> e \<noteq> CHR ''U'' \<Longrightarrow>
   unquote_body (CHR 0x5C # e # R) = map_option ((#) b) (unquote_body R)"
  by (simp add: unq)

lemma unq_x:
  "unhex 0 [h1, h2] = Some v \<Longrightarrow>
   unquote_body (CHR 0x5C # CHR ''x'' # h1 # h2 # R) = map_option ((#) (char_of v)) (unquote_body R)"
  by (simp add: unq)

lemma unq_u:
  "unhex 0 [h1, h2, h3, h4] = Some v \<Longrightarrow>
   unquote_body (CHR 0x5C # CHR ''u'' # h1 # h2 # h3 # h4 # R)
     = map_option ((@) (utf8_bytes v)) (unquote_body R)"
  by (simp add: unq)

lemma unq_U:
  "unhex 0 [h1, h2, h3, h4, h5, h6, h7, h8] = Some v \<Longrightarrow>
   unquote_body (CHR 0x5C # CHR ''U'' # h1 # h2 # h3 # h4 # h5 # h6 # h7 # h8 # R)
     = map_option ((@) (utf8_bytes v)) (unquote_body R)"
  by (simp add: unq)

lemma hexval_lowerhex: "k < 16 \<Longrightarrow> hexval (lowerhex ! k) = Some k"
proof -
  assume "k < 16"
  then have "k = 0 \<or> k = 1 \<or> k = 2 \<or> k = 3 \<or> k = 4 \<or> k = 5 \<or> k = 6 \<or> k = 7
      \<or> k = 8 \<or> k = 9 \<or> k = 10 \<or> k = 11 \<or> k = 12 \<or> k = 13 \<or> k = 14 \<or> k = 15"
    by arith
  then show ?thesis by (auto simp: hexval_def lowerhex_def)
qed

lemma hexval_digit: "hexval (lowerhex ! (x mod 16)) = Some (x mod 16)"
  by (rule hexval_lowerhex) simp

lemma step16: "16 * (x div 16) + x mod 16 = (x::nat)"
  by simp

lemma hex2_value: "b < 256 \<Longrightarrow> 16 * (b div 16 mod 16) + b mod 16 = (b::nat)"
proof -
  assume "b < 256"
  then have "b div 16 < 16" by (simp add: less_mult_imp_div_less)
  then show ?thesis by simp
qed

lemma hex4_value:
  "r < 65536 \<Longrightarrow>
   16 * (16 * (16 * (r div 4096 mod 16) + r div 256 mod 16) + r div 16 mod 16) + r mod 16 = (r::nat)"
proof -
  assume "r < 65536"
  then have "r div 4096 < 16" by (simp add: less_mult_imp_div_less)
  then have a: "r div 4096 mod 16 = r div 256 div 16" by (simp add: div_mult2_eq [symmetric])
  have b: "r div 256 = r div 16 div 16" by (simp add: div_mult2_eq [symmetric])
  show ?thesis unfolding a step16 unfolding b step16 ..
qed

lemma hex8_value:
  "r < 4294967296 \<Longrightarrow>
   16 * (16 * (16 * (16 * (16 * (16 * (16 * (r div 268435456 mod 16) + r div 16777216 mod 16)
      + r div 1048576 mod 16) + r div 65536 mod 16) + r div 4096 mod 16) + r div 256 mod 16)
      + r div 16 mod 16) + r mod 16 = (r::nat)"
proof -
  assume "r < 4294967296"
  then have "r div 268435456 < 16" by (simp add: less_mult_imp_div_less)
  then have a: "r div 268435456 mod 16 = r div 16777216 div 16"
    by (simp add: div_mult2_eq [symmetric])
  have b: "r div 16777216 = r div 1048576 div 16" by (simp add: div_mult2_eq [symmetric])
  have c: "r div 1048576 = r div 65536 div 16" by (simp add: div_mult2_eq [symmetric])
  have d: "r div 65536 = r div 4096 div 16" by (simp add: div_mult2_eq [symmetric])
  have e: "r div 4096 = r div 256 div 16" by (simp add: div_mult2_eq [symmetric])
  have f: "r div 256 = r div 16 div 16" by (simp add: div_mult2_eq [symmetric])
  show ?thesis
    unfolding a step16 unfolding b step16 unfolding c step16 unfolding d step16
    unfolding e step16 unfolding f step16 ..
qed

lemma and_15: "(x::nat) AND 0xF = x mod 16"
  using and_mod(3) [of x] by simp

lemma unhex_x:
  "b < 256 \<Longrightarrow> unhex 0 [lowerhex ! (drop_bit 4 b), lowerhex ! (b AND 0xF)] = Some (b::nat)"
proof -
  assume b: "b < 256"
  then have "b div 16 < 16" by (simp add: less_mult_imp_div_less)
  then have d: "b div 16 = b div 16 mod 16" by simp
  have "unhex 0 [lowerhex ! (b div 16 mod 16), lowerhex ! (b mod 16)]
          = Some (16 * (b div 16 mod 16) + b mod 16)"
    by (simp add: hexval_digit)
  then show ?thesis
    unfolding and_15 drop_bit_eq_div using d hex2_value [OF b] by simp
qed

lemma unhex_u:
  "r < 65536 \<Longrightarrow>
   unhex 0 (map (\<lambda>s. lowerhex ! (drop_bit s r AND 0xF)) [12, 8, 4, 0]) = Some (r::nat)"
proof -
  assume r: "r < 65536"
  have "unhex 0 [lowerhex ! (r div 4096 mod 16), lowerhex ! (r div 256 mod 16),
                 lowerhex ! (r div 16 mod 16), lowerhex ! (r mod 16)]
        = Some (16 * (16 * (16 * (r div 4096 mod 16) + r div 256 mod 16) + r div 16 mod 16)
                + r mod 16)"
    by (simp add: hexval_digit)
  then show ?thesis
    unfolding hex4_value [OF r] by (simp add: and_15 drop_bit_eq_div)
qed

lemma unhex_U:
  "r < 4294967296 \<Longrightarrow>
   unhex 0 (map (\<lambda>s. lowerhex ! (drop_bit s r AND 0xF)) [28, 24, 20, 16, 12, 8, 4, 0])
     = Some (r::nat)"
proof -
  assume r: "r < 4294967296"
  have "unhex 0 [lowerhex ! (r div 268435456 mod 16), lowerhex ! (r div 16777216 mod 16),
                 lowerhex ! (r div 1048576 mod 16), lowerhex ! (r div 65536 mod 16),
                 lowerhex ! (r div 4096 mod 16), lowerhex ! (r div 256 mod 16),
                 lowerhex ! (r div 16 mod 16), lowerhex ! (r mod 16)]
        = Some (16 * (16 * (16 * (16 * (16 * (16 * (16 * (r div 268435456 mod 16)
            + r div 16777216 mod 16) + r div 1048576 mod 16) + r div 65536 mod 16)
            + r div 4096 mod 16) + r div 256 mod 16) + r div 16 mod 16) + r mod 16)"
    by (simp add: hexval_digit)
  then show ?thesis
    unfolding hex8_value [OF r] by (simp add: and_15 drop_bit_eq_div)
qed

lemma char_code_eq: "(of_char c :: nat) = of_char d \<Longrightarrow> c = d"
  by (rule of_char_eqI)

lemma char_of_code:
  "(of_char c :: nat) = 0x22 \<Longrightarrow> c = CHR 0x22"
  "(of_char c :: nat) = 0x5C \<Longrightarrow> c = CHR 0x5C"
  "(of_char c :: nat) = 0x07 \<Longrightarrow> c = CHR 0x07"
  "(of_char c :: nat) = 0x08 \<Longrightarrow> c = CHR 0x08"
  "(of_char c :: nat) = 0x0C \<Longrightarrow> c = CHR 0x0C"
  "(of_char c :: nat) = 0x0A \<Longrightarrow> c = CHR 0x0A"
  "(of_char c :: nat) = 0x0D \<Longrightarrow> c = CHR 0x0D"
  "(of_char c :: nat) = 0x09 \<Longrightarrow> c = CHR 0x09"
  "(of_char c :: nat) = 0x0B \<Longrightarrow> c = CHR 0x0B"
  by (rule char_code_eq, simp)+

lemma visible_code: "0x20 \<le> n \<Longrightarrow> n < 256 \<Longrightarrow> n \<noteq> 0x7F \<Longrightarrow> visible (char_of (n::nat))"
  by (simp add: visible_def)

lemma visible_lowerhex: "k < 16 \<Longrightarrow> visible (lowerhex ! k)"
proof -
  assume k: "k < 16"
  have "list_all visible lowerhex" by (simp add: lowerhex_def visible_def)
  moreover have "length lowerhex = 16" by (simp add: lowerhex_def)
  ultimately show ?thesis using k by (simp add: list_all_length)
qed

lemma visible_hex_and: "visible (lowerhex ! ((x::nat) AND 0xF))"
  by (rule visible_lowerhex [OF and_15_less])

lemma visible_letters:
  "visible (CHR 0x5C)" "visible (CHR 0x22)" "visible (CHR ''a'')" "visible (CHR ''b'')"
  "visible (CHR ''f'')" "visible (CHR ''n'')" "visible (CHR ''r'')" "visible (CHR ''t'')"
  "visible (CHR ''v'')" "visible (CHR ''x'')" "visible (CHR ''u'')" "visible (CHR ''U'')"
  by (simp_all add: visible_def)

lemma visible_utf8_bytes: "0x80 \<le> r \<Longrightarrow> r \<le> 0x10FFFF \<Longrightarrow> list_all visible (utf8_bytes r)"
proof -
  assume r: "0x80 \<le> r" "r \<le> 0x10FFFF"
  have c: "visible (char_of (0x80 + x mod 64))" for x :: nat
    by (rule visible_code) simp_all
  have l2: "r < 0x800 \<Longrightarrow> visible (char_of (0xC0 + r div 64))"
  proof -
    assume "r < 0x800"
    then have "r div 64 < 32" by (simp add: less_mult_imp_div_less)
    then show ?thesis by (intro visible_code) simp_all
  qed
  have l3: "r < 0x10000 \<Longrightarrow> visible (char_of (0xE0 + r div 4096))"
  proof -
    assume "r < 0x10000"
    then have "r div 4096 < 16" by (simp add: less_mult_imp_div_less)
    then show ?thesis by (intro visible_code) simp_all
  qed
  have l4: "visible (char_of (0xF0 + r div 262144))"
  proof -
    from r have "r < 8 * 262144" by simp
    then have "r div 262144 < 8" by (simp only: less_mult_imp_div_less)
    then show ?thesis by (intro visible_code) simp_all
  qed
  from r c l2 l3 l4 show ?thesis by (simp add: utf8_bytes_def)
qed

lemma valid_le: "ValidRune r \<Longrightarrow> r \<le> 0x10FFFF"
  by (auto simp: ValidRune_def MaxRune_def split: if_splits)

text \<open>One turn of the quoting loop: what it emits reads back as the bytes it consumed.\<close>

lemma chunk_ascii:
  assumes r: "(of_char c :: nat) < 0x80" and R: "unquote_body R = Some t"
  shows "unquote_body (appendEscapedRune tab (of_char c) @ R) = Some (c # t)
         \<and> list_all visible (appendEscapedRune tab (of_char c))"
proof -
  let ?r = "of_char c :: nat"
  have bc: "char_of (byte ?r) = c" by (simp add: byte_def)
  have d: "?r < 0x20 \<or> ?r = 0x7F \<or> (0x20 \<le> ?r \<and> ?r \<le> 0x7E)" using r by linarith
  then consider (q) "?r = 0x22 \<or> ?r = 0x5C"
    | (p) "?r \<noteq> 0x22" "?r \<noteq> 0x5C" "0x20 \<le> ?r" "?r \<le> 0x7E"
    | (l) "?r = 0x07 \<or> ?r = 0x08 \<or> ?r = 0x0C \<or> ?r = 0x0A \<or> ?r = 0x0D \<or> ?r = 0x09 \<or> ?r = 0x0B"
    | (x) "?r < 0x20 \<or> ?r = 0x7F" "?r \<noteq> 0x07" "?r \<noteq> 0x08" "?r \<noteq> 0x0C" "?r \<noteq> 0x0A"
        "?r \<noteq> 0x0D" "?r \<noteq> 0x09" "?r \<noteq> 0x0B"
    by blast
  then show ?thesis
  proof cases
    case q
    then have cc: "c = CHR 0x22 \<or> c = CHR 0x5C" using char_of_code(1,2) by blast
    from q have a: "appendEscapedRune tab ?r = [CHR 0x5C, c]"
      by (auto simp: appendEscapedRune_def bc)
    from cc have "simple_escape c = Some c" by (auto simp: simple_escape_def)
    moreover from cc have "c \<noteq> CHR ''x''" "c \<noteq> CHR ''u''" "c \<noteq> CHR ''U''" by auto
    ultimately have "unquote_body (CHR 0x5C # c # R) = map_option ((#) c) (unquote_body R)"
      by (rule unq_simple)
    moreover from cc have "visible c" by (auto simp: visible_letters)
    ultimately show ?thesis unfolding a by (simp add: visible_letters R)
  next
    case p
    then have pr: "IsPrint tab ?r" by (simp add: IsPrint_def)
    from p have a: "appendEscapedRune tab ?r = [c]"
      using pr by (simp add: appendEscapedRune_def AppendRune_def bc)
    have "plain c"
    proof -
      have "c \<noteq> CHR 0x5C" "c \<noteq> CHR 0x22" using p(1,2) by auto
      then show ?thesis by (simp add: plain_def)
    qed
    then have "unquote_body (c # R) = map_option ((#) c) (unquote_body R)" by (rule unq_plain1)
    moreover from p have "visible c" by (simp add: visible_def)
    ultimately show ?thesis unfolding a by (simp add: R)
  next
    case l
    then have np: "\<not> IsPrint tab ?r" by (auto simp: IsPrint_def)
    from l consider "?r = 0x07" | "?r = 0x08" | "?r = 0x0C" | "?r = 0x0A" | "?r = 0x0D"
      | "?r = 0x09" | "?r = 0x0B" by blast
    then show ?thesis
    proof cases
      case 1
      then have a: "appendEscapedRune tab ?r = [CHR 0x5C, CHR ''a'']" and c: "c = CHR 0x07"
        using np char_of_code(3) by (simp_all add: appendEscapedRune_def)
      show ?thesis unfolding a
        by (simp add: unq_simple simple_escape_def c visible_letters R)
    next
      case 2
      then have a: "appendEscapedRune tab ?r = [CHR 0x5C, CHR ''b'']" and c: "c = CHR 0x08"
        using np char_of_code(4) by (simp_all add: appendEscapedRune_def)
      show ?thesis unfolding a
        by (simp add: unq_simple simple_escape_def c visible_letters R)
    next
      case 3
      then have a: "appendEscapedRune tab ?r = [CHR 0x5C, CHR ''f'']" and c: "c = CHR 0x0C"
        using np char_of_code(5) by (simp_all add: appendEscapedRune_def)
      show ?thesis unfolding a
        by (simp add: unq_simple simple_escape_def c visible_letters R)
    next
      case 4
      then have a: "appendEscapedRune tab ?r = [CHR 0x5C, CHR ''n'']" and c: "c = CHR 0x0A"
        using np char_of_code(6) by (simp_all add: appendEscapedRune_def)
      show ?thesis unfolding a
        by (simp add: unq_simple simple_escape_def c visible_letters R)
    next
      case 5
      then have a: "appendEscapedRune tab ?r = [CHR 0x5C, CHR ''r'']" and c: "c = CHR 0x0D"
        using np char_of_code(7) by (simp_all add: appendEscapedRune_def)
      show ?thesis unfolding a
        by (simp add: unq_simple simple_escape_def c visible_letters R)
    next
      case 6
      then have a: "appendEscapedRune tab ?r = [CHR 0x5C, CHR ''t'']" and c: "c = CHR 0x09"
        using np char_of_code(8) by (simp_all add: appendEscapedRune_def)
      show ?thesis unfolding a
        by (simp add: unq_simple simple_escape_def c visible_letters R)
    next
      case 7
      then have a: "appendEscapedRune tab ?r = [CHR 0x5C, CHR ''v'']" and c: "c = CHR 0x0B"
        using np char_of_code(9) by (simp_all add: appendEscapedRune_def)
      show ?thesis unfolding a
        by (simp add: unq_simple simple_escape_def c visible_letters R)
    qed
  next
    case x
    then have np: "\<not> IsPrint tab ?r" by (auto simp: IsPrint_def)
    have br: "byte ?r = ?r" using r by (simp add: byte_def)
    from x(1) have nq: "?r \<noteq> 0x22" "?r \<noteq> 0x5C" by auto
    from x np nq have a: "appendEscapedRune tab ?r
        = [CHR 0x5C, CHR ''x'', lowerhex ! (drop_bit 4 ?r), lowerhex ! (?r AND 0xF)]"
      by (simp add: appendEscapedRune_def br)
    have lt: "?r < 256" using r by simp
    have u: "unhex 0 [lowerhex ! (drop_bit 4 ?r), lowerhex ! (?r AND 0xF)] = Some ?r"
      using lt by (rule unhex_x)
    have v: "visible (lowerhex ! (drop_bit 4 ?r))"
      by (rule visible_lowerhex [OF drop4_less [OF lt]])
    show ?thesis unfolding a
      using unq_x [OF u, of R] v by (simp add: visible_letters visible_hex_and R)
  qed
qed

lemma chunk_invalid:
  "unquote_body R = Some t \<Longrightarrow>
   unquote_body ([CHR 0x5C, CHR ''x'', lowerhex ! (drop_bit 4 (of_char c :: nat)),
                  lowerhex ! ((of_char c :: nat) AND 0xF)] @ R)
     = Some (c # t)
   \<and> list_all visible [CHR 0x5C, CHR ''x'', lowerhex ! (drop_bit 4 (of_char c :: nat)),
                  lowerhex ! ((of_char c :: nat) AND 0xF)]"
proof -
  assume R: "unquote_body R = Some t"
  have lt: "(of_char c :: nat) < 256" by (rule of_char_less)
  have u: "unhex 0 [lowerhex ! (drop_bit 4 (of_char c :: nat)), lowerhex ! ((of_char c :: nat) AND 0xF)]
             = Some (of_char c)"
    using lt by (rule unhex_x)
  have v: "visible (lowerhex ! (drop_bit 4 (of_char c :: nat)))"
    by (rule visible_lowerhex [OF drop4_less [OF lt]])
  show ?thesis
    using unq_x [OF u, of R] v by (simp add: visible_letters visible_hex_and R)
qed

lemma chunk_multibyte:
  assumes lo: "0x80 \<le> r" and v: "ValidRune r" and R: "unquote_body R = Some t"
  shows "unquote_body (appendEscapedRune tab r @ R) = Some (utf8_bytes r @ t)
         \<and> list_all visible (appendEscapedRune tab r)"
proof -
  have hi: "r \<le> 0x10FFFF" using v by (rule valid_le)
  have n: "r \<noteq> 0x22" "r \<noteq> 0x5C" "r \<noteq> 0x07" "r \<noteq> 0x08" "r \<noteq> 0x0C" "r \<noteq> 0x0A" "r \<noteq> 0x0D"
    "r \<noteq> 0x09" "r \<noteq> 0x0B" "\<not> (r < 0x20 \<or> r = 0x7F)"
    using lo by simp_all
  show ?thesis
  proof (cases "IsPrint tab r")
    case True
    then have a: "appendEscapedRune tab r = utf8_bytes r"
      using n by (simp add: appendEscapedRune_def AppendRune_utf8_bytes [OF v])
    have "list_all plain (AppendRune r)" using n(1,2) by (rule plain_AppendRune)
    then have p: "list_all plain (utf8_bytes r)" by (simp add: AppendRune_utf8_bytes [OF v])
    show ?thesis unfolding a
      using unq_plain [OF p, of R] visible_utf8_bytes [OF lo hi] by (simp add: R)
  next
    case False
    show ?thesis
    proof (cases "r < 0x10000")
      case True
      with False n v have a: "appendEscapedRune tab r
          = CHR 0x5C # CHR ''u'' # map (\<lambda>s. lowerhex ! (drop_bit s r AND 0xF)) [12, 8, 4, 0]"
        by (simp add: appendEscapedRune_def Let_def)
      from True have u: "unhex 0 (map (\<lambda>s. lowerhex ! (drop_bit s r AND 0xF)) [12, 8, 4, 0]) = Some r"
        by (intro unhex_u) simp
      have "unquote_body (CHR 0x5C # CHR ''u'' # lowerhex ! (drop_bit 12 r AND 0xF)
              # lowerhex ! (drop_bit 8 r AND 0xF) # lowerhex ! (drop_bit 4 r AND 0xF)
              # lowerhex ! (drop_bit 0 r AND 0xF) # R)
            = map_option ((@) (utf8_bytes r)) (unquote_body R)"
        by (rule unq_u) (use u in simp)
      then show ?thesis unfolding a
        by (simp add: visible_letters visible_hex_and R)
    next
      case big: False
      with False n v have a: "appendEscapedRune tab r
          = CHR 0x5C # CHR ''U''
              # map (\<lambda>s. lowerhex ! (drop_bit s r AND 0xF)) [28, 24, 20, 16, 12, 8, 4, 0]"
        by (simp add: appendEscapedRune_def Let_def)
      from hi have u: "unhex 0 (map (\<lambda>s. lowerhex ! (drop_bit s r AND 0xF))
                         [28, 24, 20, 16, 12, 8, 4, 0]) = Some r"
        by (intro unhex_U) simp
      have "unquote_body (CHR 0x5C # CHR ''U'' # lowerhex ! (drop_bit 28 r AND 0xF)
              # lowerhex ! (drop_bit 24 r AND 0xF) # lowerhex ! (drop_bit 20 r AND 0xF)
              # lowerhex ! (drop_bit 16 r AND 0xF) # lowerhex ! (drop_bit 12 r AND 0xF)
              # lowerhex ! (drop_bit 8 r AND 0xF) # lowerhex ! (drop_bit 4 r AND 0xF)
              # lowerhex ! (drop_bit 0 r AND 0xF) # R)
            = map_option ((@) (utf8_bytes r)) (unquote_body R)"
        by (rule unq_U) (use u in simp)
      then show ?thesis unfolding a
        by (simp add: visible_letters visible_hex_and R)
    qed
  qed
qed

lemma take1: "s \<noteq> [] \<Longrightarrow> take (Suc 0) s = [s ! 0]"
  by (cases s) auto

lemma chunk_roundtrip:
  assumes s: "s \<noteq> []" and R: "unquote_body R = Some t"
  shows "unquote_body
           ((if snd (nextRune s) = 1 \<and> fst (nextRune s) = RuneError then
               [CHR 0x5C, CHR ''x'',
                lowerhex ! (drop_bit 4 (of_char (s ! 0) :: nat)),
                lowerhex ! ((of_char (s ! 0) :: nat) AND 0xF)]
             else appendEscapedRune tab (fst (nextRune s))) @ R)
         = Some (take (snd (nextRune s)) s @ t)
       \<and> list_all visible
           (if snd (nextRune s) = 1 \<and> fst (nextRune s) = RuneError then
               [CHR 0x5C, CHR ''x'',
                lowerhex ! (drop_bit 4 (of_char (s ! 0) :: nat)),
                lowerhex ! ((of_char (s ! 0) :: nat) AND 0xF)]
             else appendEscapedRune tab (fst (nextRune s)))"
proof -
  obtain r w where n: "nextRune s = (r, w)" by (cases "nextRune s")
  from nextRune_cases [OF s n] consider
      (a) "(of_char (s ! 0) :: nat) < 0x80" "r = of_char (s ! 0)" "w = 1"
    | (i) "r = RuneError" "w = 1"
    | (m) "2 \<le> w" "0x80 \<le> r" "ValidRune r" "utf8_bytes r = take w s"
    by blast
  then show ?thesis
  proof cases
    case a
    then have ne: "r \<noteq> RuneError" by (simp add: RuneError_def)
    from chunk_ascii [OF a(1) R, of tab] show ?thesis
      unfolding n using a ne by (simp add: take1 [OF s])
  next
    case i
    from chunk_invalid [OF R, of "s ! 0"] show ?thesis
      unfolding n using i by (simp add: take1 [OF s])
  next
    case m
    then have ne: "\<not> (w = 1 \<and> r = RuneError)" by simp
    from chunk_multibyte [OF m(2,3) R, of tab] show ?thesis
      unfolding n using m ne by simp
  qed
qed

lemma unquote_quote_loop: "unquote_body (quote_loop tab s) = Some s"
proof (induction tab s rule: quote_loop.induct)
  case (1 tab s)
  show ?case
  proof (cases "s = []")
    case True
    then show ?thesis by (simp add: quote_loop.simps)
  next
    case False
    have ih: "unquote_body (quote_loop tab (drop (snd (nextRune s)) s))
                = Some (drop (snd (nextRune s)) s)"
      using "1" [OF False refl refl refl] .
    show ?thesis
      unfolding quote_loop_unfold [OF False]
      using chunk_roundtrip [OF False ih, of tab] by simp
  qed
qed

lemma visible_quote_loop: "list_all visible (quote_loop tab s)"
proof (induction tab s rule: quote_loop.induct)
  case (1 tab s)
  show ?case
  proof (cases "s = []")
    case True
    then show ?thesis by (simp add: quote_loop.simps)
  next
    case False
    have ih: "list_all visible (quote_loop tab (drop (snd (nextRune s)) s))"
      using "1" [OF False refl refl refl] .
    have e: "unquote_body [] = Some []" by simp
    show ?thesis
      unfolding quote_loop_unfold [OF False]
      using chunk_roundtrip [OF False e, of tab] ih by simp
  qed
qed

subsection \<open>The header value\<close>

lemma quote_loop_ascii:
  "(of_char c :: nat) < 0x80 \<Longrightarrow>
   quote_loop tab (c # s) = appendEscapedRune tab (of_char c) @ quote_loop tab s"
  by (simp add: quote_loop_unfold nextRune_def RuneSelf_def RuneError_def)

lemma appendEscapedRune_plain:
  "printable_plain c \<Longrightarrow> appendEscapedRune tab (of_char c) = [c]"
proof -
  assume p: "printable_plain c"
  then have c: "0x20 \<le> (of_char c :: nat)" "(of_char c :: nat) \<le> 0x7E" "plain c"
    by (simp_all add: printable_plain_def)
  from c(3) have "(of_char c :: nat) \<noteq> of_char (CHR 0x22)" "(of_char c :: nat) \<noteq> of_char (CHR 0x5C)"
    unfolding plain_def by (simp_all only: of_char_eq_iff not_False_eq_True)
  then have n: "(of_char c :: nat) \<noteq> 0x22" "(of_char c :: nat) \<noteq> 0x5C" by simp_all
  show ?thesis
    using c n by (simp add: appendEscapedRune_def IsPrint_def AppendRune_def byte_def)
qed

lemma appendEscapedRune_special:
  "c = CHR 0x22 \<or> c = CHR 0x5C \<Longrightarrow> appendEscapedRune tab (of_char c) = [CHR 0x5C, c]"
  by (auto simp: appendEscapedRune_def byte_def)

lemma quote_loop_plain_step:
  "printable_plain c \<Longrightarrow> quote_loop tab (c # s) = c # quote_loop tab s"
proof -
  assume p: "printable_plain c"
  then have "(of_char c :: nat) < 0x80" by (simp add: printable_plain_def)
  then show ?thesis using p by (simp only: quote_loop_ascii appendEscapedRune_plain) simp
qed

lemma quote_loop_special_step:
  "c = CHR 0x22 \<or> c = CHR 0x5C \<Longrightarrow> quote_loop tab (c # s) = CHR 0x5C # c # quote_loop tab s"
proof -
  assume p: "c = CHR 0x22 \<or> c = CHR 0x5C"
  then have "(of_char c :: nat) < 0x80" by auto
  then show ?thesis using p by (simp only: quote_loop_ascii appendEscapedRune_special) simp
qed

text \<open>
  C3. For every file name the header value is \<^verbatim>\<open>attachment; filename=\<close>, a double
  quote, a body, and a closing double quote, where the body is the escaped file
  name: every backslash in it escapes the character after it and no double quote is
  left unescaped, so the closing quote is the first one that ends the string; it
  holds no control byte (nothing below \<^verbatim>\<open>0x20\<close>, no \<^verbatim>\<open>0x7F\<close>), so no line break of the
  name reaches the header; and reading it back by the escaping rules gives exactly
  the file name, so every quote and backslash of the name is in the body, escaped.
  For a non-directory request that forces a download, the value the handler stores
  under Content-Disposition on the response it hands to the file server is of this
  form for the final path segment.
\<close>

theorem disposition_is_well_quoted:
  "(\<exists>b. disposition tab filename = ''attachment; filename='' @ [CHR 0x22] @ b @ [CHR 0x22]
        \<and> well_escaped b \<and> list_all visible b \<and> unquote_body b = Some filename)
   \<and> (URL_Path r \<noteq> [] \<and> last (URL_Path r) \<noteq> CHR ''/''
        \<and> isMedia (typeByExtension pf) (isPathSeparator pf) (final_segment (URL_Path r)) \<longrightarrow>
        (\<exists>b. handler v pf fs wr args r w out =
               Inr (fs (w\<lparr>respHeader := (respHeader w)(''Content-Disposition'' \<mapsto>
                          [''attachment; filename='' @ [CHR 0x22] @ b @ [CHR 0x22]])\<rparr>) r,
                    logRequest v args r out)
             \<and> well_escaped b \<and> list_all visible b
             \<and> unquote_body b = Some (final_segment (URL_Path r))))"
proof -
  have q: "disposition t n = ''attachment; filename='' @ [CHR 0x22] @ quote_loop t n @ [CHR 0x22]
           \<and> well_escaped (quote_loop t n) \<and> list_all visible (quote_loop t n)
           \<and> unquote_body (quote_loop t n) = Some n" for t n
    by (simp add: disposition_def Quote_def well_escaped_quote_loop visible_quote_loop
          unquote_quote_loop)
  have a: "\<exists>b. disposition tab filename = ''attachment; filename='' @ [CHR 0x22] @ b @ [CHR 0x22]
        \<and> well_escaped b \<and> list_all visible b \<and> unquote_body b = Some filename"
    using q [of tab filename] by blast
  have b: "\<exists>b. handler v pf fs wr args r w out =
               Inr (fs (w\<lparr>respHeader := (respHeader w)(''Content-Disposition'' \<mapsto>
                          [''attachment; filename='' @ [CHR 0x22] @ b @ [CHR 0x22]])\<rparr>) r,
                    logRequest v args r out)
             \<and> well_escaped b \<and> list_all visible b
             \<and> unquote_body b = Some (final_segment (URL_Path r))"
    if h: "URL_Path r \<noteq> []" "last (URL_Path r) \<noteq> CHR ''/''"
      "isMedia (typeByExtension pf) (isPathSeparator pf) (final_segment (URL_Path r))"
  proof -
    have "handler v pf fs wr args r w out =
            Inr (fs (w\<lparr>respHeader := (respHeader w)(''Content-Disposition'' \<mapsto>
                       [disposition (isPrintTable pf) (final_segment (URL_Path r))])\<rparr>) r,
                 logRequest v args r out)"
      using h by (simp add: handler_nonempty setDisposition_def Base_final_segment Let_def
                    Header_Set_def)
    with q [of "isPrintTable pf" "final_segment (URL_Path r)"] show ?thesis
      by (intro exI [of _ "quote_loop (isPrintTable pf) (final_segment (URL_Path r))"]) simp
  qed
  from a b show ?thesis by blast
qed

theorem disposition_is_well_quoted_witness:
  "URL_Path (sample_request
      [CHR ''/'', CHR ''a'', CHR 0x22, CHR 0x5C, CHR 0x0A, CHR ''.'', CHR ''p'', CHR ''d'', CHR ''f''])
     \<noteq> []
   \<and> isMedia (typeByExtension sample_platform) (isPathSeparator sample_platform)
       [CHR ''a'', CHR 0x22, CHR 0x5C, CHR 0x0A, CHR ''.'', CHR ''p'', CHR ''d'', CHR ''f'']
   \<and> disposition (\<lambda>_. False)
        [CHR ''a'', CHR 0x22, CHR 0x5C, CHR 0x0A, CHR ''.'', CHR ''p'', CHR ''d'', CHR ''f'']
      = ''attachment; filename='' @ [CHR 0x22]
          @ [CHR ''a'', CHR 0x5C, CHR 0x22, CHR 0x5C, CHR 0x5C, CHR 0x5C, CHR ''n'',
             CHR ''.'', CHR ''p'', CHR ''d'', CHR ''f'']
          @ [CHR 0x22]
   \<and> unquote_body [CHR ''a'', CHR 0x5C, CHR 0x22, CHR 0x5C, CHR 0x5C, CHR 0x5C, CHR ''n'',
             CHR ''.'', CHR ''p'', CHR ''d'', CHR ''f'']
      = Some [CHR ''a'', CHR 0x22, CHR 0x5C, CHR 0x0A, CHR ''.'', CHR ''p'', CHR ''d'', CHR ''f'']
   \<and> (\<exists>b. handler Part_000 sample_platform sample_fs response_write sample_args
             (sample_request
                [CHR ''/'', CHR ''a'', CHR 0x22, CHR 0x5C, CHR 0x0A, CHR ''.'', CHR ''p'', CHR ''d'',
                 CHR ''f''])
             empty_response []
           = Inr (sample_fs
                    (empty_response\<lparr>respHeader := (respHeader empty_response)
                       (''Content-Disposition'' \<mapsto>
                          [''attachment; filename='' @ [CHR 0x22] @ b @ [CHR 0x22]])\<rparr>)
                    (sample_request
                       [CHR ''/'', CHR ''a'', CHR 0x22, CHR 0x5C, CHR 0x0A, CHR ''.'', CHR ''p'',
                        CHR ''d'', CHR ''f'']),
                  logRequest Part_000 sample_args
                    (sample_request
                       [CHR ''/'', CHR ''a'', CHR 0x22, CHR 0x5C, CHR 0x0A, CHR ''.'', CHR ''p'',
                        CHR ''d'', CHR ''f'']) [])
         \<and> well_escaped b \<and> list_all visible b
         \<and> unquote_body b
             = Some [CHR ''a'', CHR 0x22, CHR 0x5C, CHR 0x0A, CHR ''.'', CHR ''p'', CHR ''d'', CHR ''f''])"
proof -
  let ?url = "[CHR ''/'', CHR ''a'', CHR 0x22, CHR 0x5C, CHR 0x0A, CHR ''.'', CHR ''p'', CHR ''d'',
               CHR ''f'']"
  let ?name = "[CHR ''a'', CHR 0x22, CHR 0x5C, CHR 0x0A, CHR ''.'', CHR ''p'', CHR ''d'', CHR ''f'']"
  let ?body = "[CHR ''a'', CHR 0x5C, CHR 0x22, CHR 0x5C, CHR 0x5C, CHR 0x5C, CHR ''n'',
             CHR ''.'', CHR ''p'', CHR ''d'', CHR ''f'']"
  have u: "URL_Path (sample_request ?url) = ?url" by (simp add: sample_request_def)
  have seg: "final_segment ?url = ?name" by (simp add: final_segment_def)
  have h1: "URL_Path (sample_request ?url) \<noteq> []"
    and h2: "last (URL_Path (sample_request ?url)) \<noteq> CHR ''/''"
    by (simp_all add: u)
  have m: "isMedia (typeByExtension sample_platform) (isPathSeparator sample_platform) ?name"
    by (simp add: sample_platform_def isMedia_def Ext_def unix_sep_def sample_tbe_def
          mediaTypes_def)
  have nl: "appendEscapedRune tab (of_char (CHR 0x0A)) = [CHR 0x5C, CHR ''n'']" for tab
    by (simp add: appendEscapedRune_def IsPrint_def)
  have nlq: "quote_loop tab (CHR 0x0A # s) = [CHR 0x5C, CHR ''n''] @ quote_loop tab s" for tab s
    using quote_loop_ascii [of "CHR 0x0A" tab s] unfolding nl by simp
  have q: "disposition (\<lambda>_. False) ?name
             = ''attachment; filename='' @ [CHR 0x22] @ ?body @ [CHR 0x22]"
    by (simp add: disposition_def Quote_def quote_loop_plain_step quote_loop_special_step nlq
          printable_plain_def plain_def quote_loop.simps [of _ "[]"])
  have ub: "unquote_body ?body = Some ?name"
    by (simp add: unq simple_escape_def)
  from disposition_is_well_quoted
         [of "\<lambda>_. False" ?name "sample_request ?url" sample_platform Part_000 sample_fs
             response_write sample_args empty_response "[]"]
       h1 h2 m q ub
  show ?thesis by (simp only: u seg) simp
qed






subsection \<open>The local address\<close>

lemma digit_value_digit: "k < 10 \<Longrightarrow> digit_value (''0123456789'' ! k) = Some k"
proof -
  assume "k < 10"
  then have "k = 0 \<or> k = 1 \<or> k = 2 \<or> k = 3 \<or> k = 4 \<or> k = 5 \<or> k = 6 \<or> k = 7
      \<or> k = 8 \<or> k = 9"
    by arith
  then show ?thesis by (auto simp: digit_value_def)
qed

lemma digit_zero: "k < 10 \<Longrightarrow> ''0123456789'' ! k = CHR ''0'' \<Longrightarrow> k = 0"
proof -
  assume k: "k < 10" and z: "''0123456789'' ! k = CHR ''0''"
  have "digit_value (''0123456789'' ! k) = Some k" using k by (rule digit_value_digit)
  then have "digit_value (CHR ''0'') = Some k" unfolding z .
  then show ?thesis by (simp add: digit_value_def)
qed

lemma parse_digits_append:
  "parse_digits a (xs @ ys) =
     (case parse_digits a xs of None \<Rightarrow> None | Some b \<Rightarrow> parse_digits b ys)"
  by (induction xs arbitrary: a) (auto split: option.splits)

lemma decimal_nonempty: "decimal n \<noteq> []"
  by (subst decimal.simps) simp

lemma parse_digits_decimal: "parse_digits 0 (decimal n) = Some n"
proof (induction n rule: decimal.induct)
  case (1 n)
  show ?case
  proof (cases "n < 10")
    case True
    then show ?thesis
      by (subst decimal.simps) (simp add: digit_value_digit)
  next
    case False
    then have ih: "parse_digits 0 (decimal (n div 10)) = Some (n div 10)"
      using "1" by simp
    have d: "digit_value (''0123456789'' ! (n mod 10)) = Some (n mod 10)"
      by (rule digit_value_digit) simp
    have "decimal n = decimal (n div 10) @ [''0123456789'' ! (n mod 10)]"
      using False by (subst decimal.simps) simp
    then show ?thesis
      by (simp add: parse_digits_append ih d)
  qed
qed

lemma decimal_leading_zero: "hd (decimal n) = CHR ''0'' \<Longrightarrow> n = 0"
proof (induction n rule: decimal.induct)
  case (1 n)
  show ?case
  proof (cases "n < 10")
    case True
    with "1.prems" have "''0123456789'' ! n = CHR ''0''"
      by (subst (asm) decimal.simps) simp
    with True show ?thesis by (rule digit_zero)
  next
    case False
    have "decimal n = decimal (n div 10) @ [''0123456789'' ! (n mod 10)]"
      using False by (subst decimal.simps) simp
    with "1.prems" have "hd (decimal (n div 10)) = CHR ''0''"
      by (simp add: decimal_nonempty)
    with "1.IH" False have "n div 10 = 0" by simp
    with False show ?thesis by simp
  qed
qed

lemma decimal_zero: "decimal 0 = ''0''"
  by (subst decimal.simps) simp

lemma parse_decimal_decimal: "parse_decimal (decimal n) = Some n"
proof (cases "hd (decimal n) = CHR ''0''")
  case True
  then have "n = 0" by (rule decimal_leading_zero)
  then show ?thesis by (simp add: parse_decimal_def decimal_zero digit_value_def)
next
  case False
  then show ?thesis
    by (simp add: parse_decimal_def decimal_nonempty parse_digits_decimal)
qed

lemma To4_length: "To4 ip = Some p4 \<Longrightarrow> length p4 = 4"
  by (auto simp: To4_def split: if_splits)

lemma list4: "length p = 4 \<Longrightarrow> p = [p ! 0, p ! 1, p ! 2, p ! 3]"
  by (auto simp: list_eq_iff_nth_eq less_Suc_eq numeral_eq_Suc)

lemma getLocalAddr_loop_find:
  "getLocalAddr_loop v6 addrs = map_option (\<lambda>a. IP_String v6 (addrIP a)) (find nonLoopbackIPv4 addrs)"
  by (induction v6 addrs rule: getLocalAddr_loop.induct)
     (auto simp: IsLoopback_def split: option.splits)

lemma IP_String_v4: "To4 ip = Some p4 \<Longrightarrow> IP_String v6 ip = dotted p4"
  by (auto simp: IP_String_def To4_def split: if_splits)

lemma decimal_one: "decimal (Suc 0) = ''1''"
  by (subst decimal.simps) simp

lemma decimal_small:
  "decimal 0 = ''0''" "decimal 7 = ''7''" "decimal 10 = ''10''"
  "decimal 20 = ''20''" "decimal 168 = ''168''" "decimal 192 = ''192''" "decimal 255 = ''255''"
  by (simp_all add: decimal.simps decimal_one)

text \<open>
  C8. \<^verbatim>\<open>getLocalAddr\<close> is total and always returns a string. It returns
  \<^verbatim>\<open>127.0.0.1\<close> when the interface enumeration failed and when no address of the
  enumeration is a non-loopback IPv4 address. Otherwise it returns the first such
  address in dotted-decimal notation: four decimal numerals separated by dots that
  read back as the four IPv4 bytes of that address, the first of which is not 127.
\<close>

theorem getLocalAddr_falls_back_to_loopback:
  "getLocalAddr v6 (Inl err) = ''127.0.0.1''
   \<and> (find nonLoopbackIPv4 addrs = None \<longrightarrow> getLocalAddr v6 (Inr addrs) = ''127.0.0.1'')
   \<and> (find nonLoopbackIPv4 addrs = Some a \<longrightarrow>
        (\<exists>b0 b1 b2 b3 d0 d1 d2 d3.
           To4 (addrIP a) = Some [b0, b1, b2, b3] \<and> b0 \<noteq> 127
           \<and> getLocalAddr v6 (Inr addrs) = d0 @ ''.'' @ d1 @ ''.'' @ d2 @ ''.'' @ d3
           \<and> parse_decimal d0 = Some b0 \<and> parse_decimal d1 = Some b1
           \<and> parse_decimal d2 = Some b2 \<and> parse_decimal d3 = Some b3))"
proof -
  have some: "find nonLoopbackIPv4 addrs = Some a \<Longrightarrow>
        (\<exists>b0 b1 b2 b3 d0 d1 d2 d3.
           To4 (addrIP a) = Some [b0, b1, b2, b3] \<and> b0 \<noteq> 127
           \<and> getLocalAddr v6 (Inr addrs) = d0 @ ''.'' @ d1 @ ''.'' @ d2 @ ''.'' @ d3
           \<and> parse_decimal d0 = Some b0 \<and> parse_decimal d1 = Some b1
           \<and> parse_decimal d2 = Some b2 \<and> parse_decimal d3 = Some b3)"
  proof -
    assume f: "find nonLoopbackIPv4 addrs = Some a"
    then have "nonLoopbackIPv4 a" by (auto simp: find_Some_iff)
    then obtain p4 where p4: "To4 (addrIP a) = Some p4" "p4 ! 0 \<noteq> 127"
      by (cases a) (auto split: option.splits)
    then have l: "p4 = [p4 ! 0, p4 ! 1, p4 ! 2, p4 ! 3]"
      using To4_length list4 by blast
    have g: "getLocalAddr v6 (Inr addrs) = dotted p4"
      using f p4 by (simp add: getLocalAddr_def getLocalAddr_loop_find IP_String_v4)
    have "To4 (addrIP a) = Some [p4 ! 0, p4 ! 1, p4 ! 2, p4 ! 3] \<and> p4 ! 0 \<noteq> 127
           \<and> getLocalAddr v6 (Inr addrs)
               = decimal (p4 ! 0) @ ''.'' @ decimal (p4 ! 1) @ ''.'' @ decimal (p4 ! 2)
                   @ ''.'' @ decimal (p4 ! 3)
           \<and> parse_decimal (decimal (p4 ! 0)) = Some (p4 ! 0)
           \<and> parse_decimal (decimal (p4 ! 1)) = Some (p4 ! 1)
           \<and> parse_decimal (decimal (p4 ! 2)) = Some (p4 ! 2)
           \<and> parse_decimal (decimal (p4 ! 3)) = Some (p4 ! 3)"
      using p4 l g by (simp add: dotted_def parse_decimal_decimal)
    then show ?thesis by blast
  qed
  have none: "find nonLoopbackIPv4 addrs = None \<longrightarrow> getLocalAddr v6 (Inr addrs) = ''127.0.0.1''"
    by (simp add: getLocalAddr_def getLocalAddr_loop_find)
  have err: "getLocalAddr v6 (Inl err) = ''127.0.0.1''"
    by (simp add: getLocalAddr_def)
  from err none some show ?thesis by blast
qed

theorem getLocalAddr_falls_back_to_loopback_witness:
  "getLocalAddr (\<lambda>_. ''v6'') (Inl ''no interfaces'') = ''127.0.0.1''
   \<and> find nonLoopbackIPv4 (take 3 sample_addrs) = None
   \<and> getLocalAddr (\<lambda>_. ''v6'') (Inr (take 3 sample_addrs)) = ''127.0.0.1''
   \<and> find nonLoopbackIPv4 sample_addrs
       = Some (IPNet [0, 0, 0, 0, 0, 0, 0, 0, 0, 0, 0xff, 0xff, 192, 168, 1, 20] [])
   \<and> getLocalAddr (\<lambda>_. ''v6'') (Inr sample_addrs) = ''192.168.1.20''
   \<and> getLocalAddr (\<lambda>_. ''v6'') (Inr [IPNet [127, 0, 0, 1] [], IPNet [10, 0, 0, 7] [],
         IPNet [192, 168, 1, 20] []]) = ''10.0.0.7''"
proof -
  have n: "find nonLoopbackIPv4 (take 3 sample_addrs) = None"
    by (simp add: sample_addrs_def To4_def IPv6loopback_def isZeros_def)
  have s: "find nonLoopbackIPv4 sample_addrs
       = Some (IPNet [0, 0, 0, 0, 0, 0, 0, 0, 0, 0, 0xff, 0xff, 192, 168, 1, 20] [])"
    by (simp add: sample_addrs_def To4_def IPv6loopback_def isZeros_def)
  have g1: "getLocalAddr (\<lambda>_. ''v6'') (Inr sample_addrs) = ''192.168.1.20''"
    by (simp add: getLocalAddr_def getLocalAddr_loop_find s IP_String_def To4_def isZeros_def
          dotted_def decimal_small decimal_one)
  have g2: "getLocalAddr (\<lambda>_. ''v6'') (Inr [IPNet [127, 0, 0, 1] [], IPNet [10, 0, 0, 7] [],
         IPNet [192, 168, 1, 20] []]) = ''10.0.0.7''"
    by (simp add: getLocalAddr_def IsLoopback_def IP_String_def To4_def dotted_def decimal_small decimal_one)
  from getLocalAddr_falls_back_to_loopback [of "\<lambda>_. ''v6''" "''no interfaces''" "take 3 sample_addrs"]
       getLocalAddr_falls_back_to_loopback [of "\<lambda>_. ''v6''" "''no interfaces''" sample_addrs]
       n s g1 g2
  show ?thesis by simp
qed

subsection \<open>The certificate and startup\<close>

lemma serial_range:
  "SerialNumber (template c) = Some n \<Longrightarrow> 0 \<le> n \<and> n < 2 ^ 62"
  by (auto simp: template_def rand_Int_def Let_def split: option.splits)

lemma serial_reached:
  "0 \<le> n \<Longrightarrow> n < 2 ^ 62 \<Longrightarrow> SerialNumber (template (c\<lparr>entropy := Some (nat n)\<rparr>)) = Some n"
  by (simp add: template_def rand_Int_def Let_def)

text \<open>
  C6, as stated, fails: \<^verbatim>\<open>rand.Int\<close> draws from \<open>[0, 2^62)\<close>, so a credential is
  generated whose serial number is 0 when the random source yields 0.
\<close>

theorem serial_can_be_zero:
  "generateTLSConfig zero_serial_crypto
     = Inr \<lparr>Certificates = [\<lparr>Certificate = [''DER''], PrivateKey = sample_key\<rparr>]\<rparr>
   \<and> SerialNumber (template zero_serial_crypto) = Some 0"
  by (simp add: generateTLSConfig_def template_def rand_Int_def zero_serial_crypto_def
        good_crypto_def Let_def)

text \<open>
  C6, amended. A serial number that was drawn is at least 0 and below \<open>2^62\<close>; one is
  drawn whenever the random source can be read; every value of that range can occur,
  so the sampling range has exactly \<open>2^62\<close> values.
\<close>

theorem serial_number_range:
  "(SerialNumber (template c) = Some n \<longrightarrow> 0 \<le> n \<and> n < 2 ^ 62)
   \<and> (entropy c \<noteq> None \<longrightarrow> SerialNumber (template c) \<noteq> None)
   \<and> {n. \<exists>c. SerialNumber (template c) = Some n} = {0 ..< 2 ^ 62}
   \<and> card {n. \<exists>c. SerialNumber (template c) = Some n} = 2 ^ 62"
proof -
  have s: "{n. \<exists>c. SerialNumber (template c) = Some n} = {0 ..< 2 ^ 62}"
  proof (rule set_eqI)
    fix n :: int
    show "n \<in> {n. \<exists>c. SerialNumber (template c) = Some n} \<longleftrightarrow> n \<in> {0 ..< 2 ^ 62}"
    proof
      assume "n \<in> {n. \<exists>c. SerialNumber (template c) = Some n}"
      then show "n \<in> {0 ..< 2 ^ 62}" using serial_range by auto
    next
      assume "n \<in> {0 ..< 2 ^ 62}"
      then have "SerialNumber (template (good_crypto\<lparr>entropy := Some (nat n)\<rparr>)) = Some n"
        using serial_reached by simp
      then show "n \<in> {n. \<exists>c. SerialNumber (template c) = Some n}" by blast
    qed
  qed
  have e: "entropy c \<noteq> None \<longrightarrow> SerialNumber (template c) \<noteq> None"
    by (auto simp: template_def rand_Int_def Let_def)
  from s e serial_range [of c n] show ?thesis by simp
qed

theorem serial_number_range_witness:
  "SerialNumber (template good_crypto) = Some 12345
   \<and> (0::int) \<le> 12345 \<and> (12345::int) < 2 ^ 62
   \<and> entropy good_crypto \<noteq> None"
proof -
  have h: "SerialNumber (template good_crypto) = Some 12345"
    by (simp add: template_def rand_Int_def good_crypto_def)
  from serial_number_range [of good_crypto 12345] h show ?thesis
    by (simp add: good_crypto_def)
qed

text \<open>
  C5, as stated, fails: a credential is produced also when certificate construction
  returns an error, and then it holds no certificate at all (its only entry is the
  empty byte string), so it is not a self-signed certificate for localhost.
\<close>

theorem credential_with_empty_certificate:
  "generatedKey failing_crypto = Some sample_key
   \<and> createCertificate failing_crypto (template failing_crypto) (template failing_crypto)
        (PublicKey sample_key) sample_key = None
   \<and> generateTLSConfig failing_crypto
       = Inr \<lparr>Certificates = [\<lparr>Certificate = [Nil], PrivateKey = sample_key\<rparr>]\<rparr>"
  by (simp add: generateTLSConfig_def failing_crypto_def Let_def)

text \<open>
  C5, amended. When key generation and certificate construction both succeed, the
  credential produced holds the generated key and exactly the bytes that
  \<^verbatim>\<open>CreateCertificate\<close> returned for a self-signed request: the same template as
  certificate and as issuer, the public half of the generated key, and that key as
  signer. The template has common name localhost, a validity of 365 days, key usage
  digital signature and key encipherment (value 5: bits 0 and 2 and no other), and
  extended key usage server authentication (value 1). Every credential produced is
  either of this kind or holds the empty byte string in place of the certificate.
\<close>

theorem successful_credential_is_self_signed_localhost:
  "generatedKey c = Some priv \<Longrightarrow>
   createCertificate c (template c) (template c) (PublicKey priv) priv = Some der \<Longrightarrow>
     generateTLSConfig c
       = Inr \<lparr>Certificates = [\<lparr>Certificate = [der], PrivateKey = priv\<rparr>]\<rparr>
     \<and> CommonName (Subject (template c)) = ''localhost''
     \<and> NotBefore (template c) = timeNow c
     \<and> NotAfter (template c) - NotBefore (template c) = 365 * 24 * 3600 * 1000000000
     \<and> KeyUsage (template c) = 5
     \<and> bit (KeyUsage (template c)) 0 \<and> bit (KeyUsage (template c)) 2
     \<and> ExtKeyUsage (template c) = [1]
     \<and> (\<forall>cfg. generateTLSConfig c' = Inr cfg \<longrightarrow>
          (\<exists>k bytes. generatedKey c' = Some k
             \<and> cfg = \<lparr>Certificates = [\<lparr>Certificate = [bytes], PrivateKey = k\<rparr>]\<rparr>
             \<and> (createCertificate c' (template c') (template c') (PublicKey k) k = Some bytes
                  \<or> (createCertificate c' (template c') (template c') (PublicKey k) k = None
                       \<and> bytes = []))))"
  by (auto simp: generateTLSConfig_def template_def Let_def Hour_def
        KeyUsageKeyEncipherment_def KeyUsageDigitalSignature_def ExtKeyUsageServerAuth_def
        bit_iff_odd split: option.splits)

theorem successful_credential_is_self_signed_localhost_witness:
  "generatedKey good_crypto = Some sample_key
   \<and> createCertificate good_crypto (template good_crypto) (template good_crypto)
        (PublicKey sample_key) sample_key = Some ''DER''
   \<and> generateTLSConfig good_crypto
       = Inr \<lparr>Certificates = [\<lparr>Certificate = [''DER''], PrivateKey = sample_key\<rparr>]\<rparr>
   \<and> template good_crypto
       = \<lparr>SerialNumber = Some 12345, Subject = \<lparr>CommonName = ''localhost''\<rparr>,
          NotBefore = 1000, NotAfter = 1000 + 31536000000000000, KeyUsage = 5,
          ExtKeyUsage = [1]\<rparr>"
proof -
  have k: "generatedKey good_crypto = Some sample_key"
    by (simp add: good_crypto_def)
  have d: "createCertificate good_crypto (template good_crypto) (template good_crypto)
        (PublicKey sample_key) sample_key = Some ''DER''"
    by (simp add: good_crypto_def)
  have t: "template good_crypto
       = \<lparr>SerialNumber = Some 12345, Subject = \<lparr>CommonName = ''localhost''\<rparr>,
          NotBefore = 1000, NotAfter = 1000 + 31536000000000000, KeyUsage = 5,
          ExtKeyUsage = [1]\<rparr>"
    by (simp add: template_def good_crypto_def rand_Int_def Hour_def
          KeyUsageKeyEncipherment_def KeyUsageDigitalSignature_def ExtKeyUsageServerAuth_def)
  from successful_credential_is_self_signed_localhost [OF k d] k d t show ?thesis
    by simp
qed

text \<open>
  C4, as stated, fails: with HTTPS requested, a random source that cannot be read and a
  certificate construction that returns an error, the process neither reports an
  error nor exits; it serves with a certificate of empty bytes.
\<close>

theorem failed_certificate_still_served:
  "entropy failing_crypto = None
   \<and> createCertificate failing_crypto (template failing_crypto) (template failing_crypto)
        (PublicKey sample_key) sample_key = None
   \<and> snd (main (\<lambda>_. []) (Inl ''no interfaces'') failing_crypto (\<lambda>cfg. None) https_args)
       = Serving (Some \<lparr>Certificates = [\<lparr>Certificate = [Nil], PrivateKey = sample_key\<rparr>]\<rparr>)"
  by (simp add: main_def generateTLSConfig_def failing_crypto_def https_args_def Let_def)

text \<open>
  C4, amended. With HTTPS requested, startup ends in a panic when key generation
  failed. Otherwise the errors of serial-number generation and of certificate
  construction are discarded: the listen call is made with a configuration of one
  certificate (of empty bytes when construction failed), and only an error returned
  by the listen call is reported and ends the process.
\<close>

theorem startup_discards_credential_errors:
  "https args \<Longrightarrow>
     snd (main v6 ifaddrs c listen args) =
       (case generatedKey c of
          None \<Rightarrow> Panicked NilPointerDereference
        | Some priv \<Rightarrow>
            (let cfg = \<lparr>Certificates =
                    [\<lparr>Certificate =
                        [case createCertificate c (template c) (template c) (PublicKey priv) priv of
                           None \<Rightarrow> [] | Some der \<Rightarrow> der],
                       PrivateKey = priv\<rparr>]\<rparr>
             in case listen (Some cfg) of
                  Some err \<Rightarrow> Fatal err
                | None \<Rightarrow> Serving (Some cfg)))"
  by (auto simp: main_def generateTLSConfig_def Let_def split: option.splits)

theorem startup_discards_credential_errors_witness:
  "https https_args
   \<and> snd (main (\<lambda>_. []) (Inl ''no interfaces'') failing_crypto (\<lambda>cfg. Some ''address in use'')
            https_args)
       = Fatal ''address in use''
   \<and> snd (main (\<lambda>_. []) (Inl ''no interfaces'')
            (failing_crypto\<lparr>generatedKey := None\<rparr>) (\<lambda>cfg. None) https_args)
       = Panicked NilPointerDereference"
proof -
  have h: "https https_args" by (simp add: https_args_def)
  from startup_discards_credential_errors
         [OF h, of "\<lambda>_. []" "Inl ''no interfaces''" failing_crypto "\<lambda>cfg. Some ''address in use''"]
       startup_discards_credential_errors
         [OF h, of "\<lambda>_. []" "Inl ''no interfaces''" "failing_crypto\<lparr>generatedKey := None\<rparr>"
            "\<lambda>cfg. None"]
       h
  show ?thesis by (simp add: failing_crypto_def Let_def)
qed

end
